theory Spec2Isabelle
  imports Main "HOL-Library.Word"
begin

section \<open>The layout data model (namespace Layout)\<close>

text \<open>
  The node categories that \<open>Parser.cpp\<close> assigns. \<open>LayoutDefinitions.h\<close> is not among the
  sources; the enumeration lists the values the parser names.
\<close>

datatype Category =
    ComplexField | SimpleField | Bitfield
  | NVBase | NVPrimaryBase | VBase | VPrimaryBase
  | VTablePtr | VFTablePtr | VBTablePtr | VtorDisp

text \<open>\<open>Layout::Location\<close>: \<open>fileIndex\<close> is an \<open>int\<close>, line and column are \<open>unsigned int\<close>.\<close>

record Location =
  fileIndex :: int
  line :: "32 word"
  column :: "32 word"

text \<open>
  \<open>Layout::Node\<close>. The scalar members are the record \<open>NodeInfo\<close>; the vector of
  children makes the type recursive, so the node itself is a datatype around it.
  Offsets, sizes and alignments are \<open>CharUnits\<close> quantities (64-bit signed in clang);
  they are unbounded integers here, no operation of the parser on them other than
  \<open>vBaseOffset - 4\<close> computes with them.
\<close>

record NodeInfo =
  name :: string
  type :: string
  typeLocation :: Location
  fieldLocation :: Location
  offset :: int
  size' :: int
  align :: int
  nature :: Category

datatype Node = Node (info: NodeInfo) (children: "Node list")

definition push_back :: "Node \<Rightarrow> Node \<Rightarrow> Node" where
  "push_back node child = Node (info node) (children node @ [child])"

definition update :: "(NodeInfo \<Rightarrow> NodeInfo) \<Rightarrow> Node \<Rightarrow> Node" where
  "update f node = Node (f (info node)) (children node)"

text \<open>\<open>Layout::Result\<close> and the process-wide state of namespace \<open>ClangParser\<close>.\<close>

record Result =
  node :: "Node option"
  files :: "string list"

record LocationFilter =
  row :: "32 word"
  col :: "32 word"

record globals =
  g_filenameLookup :: "32 word \<rightharpoonup> nat"
  g_result :: Result
  g_locationFilter :: LocationFilter

section \<open>Helpers: the result and the file table\<close>

text \<open>
  \<open>ClearResult\<close>: clears the lookup table, destroys the tree (\<open>DestroyTree\<close> only frees
  memory, which a value model does not have), nulls the root and clears the file vector.
\<close>

definition ClearResult :: "globals \<Rightarrow> globals" where
  "ClearResult g =
     g\<lparr>g_filenameLookup := Map.empty,
       g_result := (g_result g)\<lparr>node := None, files := []\<rparr>\<rparr>"

text \<open>\<open>clang::FileID\<close>, as far as the parser observes it.\<close>

datatype FileID = FileID (isValid_FileID: bool) (getHashValue: "32 word")

text \<open>
  \<open>AddFileToDictionary\<close>: \<open>unordered_map::insert\<close> leaves an existing entry alone and
  reports through \<open>result.second\<close> whether it inserted; \<open>result.first->second\<close> is the
  index stored under the key afterwards.
\<close>

definition AddFileToDictionary :: "FileID \<Rightarrow> string \<Rightarrow> globals \<Rightarrow> nat \<times> globals" where
  "AddFileToDictionary fileId filename g =
     (let nextIndex = length (files (g_result g))
      in case g_filenameLookup g (getHashValue fileId) of
           Some idx \<Rightarrow> (idx, g)
         | None \<Rightarrow>
             (nextIndex,
              g\<lparr>g_filenameLookup := (g_filenameLookup g)(getHashValue fileId \<mapsto> nextIndex),
                g_result := (g_result g)\<lparr>files := files (g_result g) @ [filename]\<rparr>\<rparr>))"

text \<open>A run of intern calls, in order, with the index each call returns.\<close>

fun intern_all :: "(FileID \<times> string) list \<Rightarrow> globals \<Rightarrow> nat list \<times> globals" where
  "intern_all [] g = ([], g)"
| "intern_all (c # cs) g =
     (let (i, g1) = AddFileToDictionary (fst c) (snd c) g;
          (is, g2) = intern_all cs g1
      in (i # is, g2))"

text \<open>
  The file table invariant: the lookup is finite and injective and its values are
  exactly the indices of the file vector.
\<close>

definition table_inv :: "globals \<Rightarrow> bool" where
  "table_inv g \<longleftrightarrow>
     finite (dom (g_filenameLookup g))
     \<and> inj_on (g_filenameLookup g) (dom (g_filenameLookup g))
     \<and> the ` g_filenameLookup g ` dom (g_filenameLookup g) = {..< length (files (g_result g))}"

section \<open>The collaborators: source locations\<close>

text \<open>
  What the parser reads of clang's source locations. A presumed location has a
  validity, a file, a filename and an \<open>unsigned\<close> line and column. A source location has a
  validity; its raw encoding tells locations apart. The source manager gives the
  presumed location and the file of a location, and the main file.
\<close>

datatype PresumedLoc =
  PresumedLoc (isValid_PresumedLoc: bool) (getFileID: FileID) (getFilename: string)
    (getLine: "32 word") (getColumn: "32 word")

datatype SourceLocation = SourceLocation (isValid: bool) (getRawEncoding: "32 word")

record SourceRange =
  getBegin :: SourceLocation
  getEnd :: SourceLocation

record SourceManager =
  getPresumedLoc :: "SourceLocation \<Rightarrow> PresumedLoc"
  getFileID_of :: "SourceLocation \<Rightarrow> FileID"
  getMainFileID :: FileID

section \<open>The collaborators: declarations\<close>

text \<open>
  What the parser reads of a record declaration. \<open>address\<close> is the identity of the
  declaration object: the parser compares declarations as pointers (\<open>base == primaryBase\<close>)
  and clang keys its layout tables by them, so two declarations are the same value here
  exactly when they are the same object. \<open>getDefinition\<close> says whether \<open>getDefinition()\<close> is
  non-null.
\<close>

record RecordDeclInfo =
  address :: nat
  getLocation :: SourceLocation
  getSourceRange :: SourceRange
  getQualifiedNameAsString :: string
  isDynamicClass :: bool
  isDependentType :: bool
  getDefinition :: bool
  isInvalidDecl :: bool
  isCompleteDefinition :: bool

text \<open>
  What the parser reads of a field: its name, the spelling of its type
  (\<open>getType().getAsString()\<close>), the width and alignment in bits that
  \<open>context.getTypeInfo(field.getType())\<close> gives, whether it is a bitfield and of which
  width, and its location.
\<close>

record TypeInfo =
  Width :: nat
  Align :: nat

record FieldDeclInfo =
  getNameAsString :: string
  getAsString :: string
  getTypeInfo :: TypeInfo
  isBitField :: bool
  getBitWidthValue :: nat
  getLocation_field :: SourceLocation

text \<open>
  A record declaration with its direct base specifiers (\<open>bases()\<close>), its virtual bases
  (\<open>vbases()\<close>) and its fields in declaration order. A complete class has only complete
  classes as bases and as types of its members, so the declarations a build reaches from
  one declaration form a tree. A base specifier is given with the record its type names;
  the type of a field names a record or none (\<open>getAsCXXRecordDecl()\<close> is null).
\<close>

datatype CXXRecordDecl =
  CXXRecordDecl (decl_info: RecordDeclInfo) (bases: "CXXBaseSpecifier list")
    (vbases: "CXXBaseSpecifier list") (fields': "FieldDecl list")
and CXXBaseSpecifier =
  CXXBaseSpecifier (isDependentType_base: bool) (isVirtual: bool)
    (getAsCXXRecordDecl_base: CXXRecordDecl)
and FieldDecl =
  FieldDecl (field_info: FieldDeclInfo) (getAsCXXRecordDecl: "CXXRecordDecl option")

text \<open>
  clang's \<open>ASTRecordLayout\<close>: sizes, alignments and offsets are \<open>CharUnits\<close> quantities,
  field offsets are in bits. \<open>getNonVirtualAlignment\<close> is part of the layout's interface;
  the parser does not read it. \<open>getVBaseOffsetsMap\<close> is the map the parser searches with
  \<open>find\<close>.
\<close>

record VBaseInfo =
  hasVtorDisp :: bool

record ASTRecordLayout =
  getSize :: int
  getNonVirtualSize :: int
  getAlignment :: int
  getNonVirtualAlignment :: int
  getPrimaryBase :: "CXXRecordDecl option"
  hasOwnVFPtr :: bool
  hasOwnVBPtr :: bool
  getVBPtrOffset :: int
  getBaseClassOffset :: "CXXRecordDecl \<Rightarrow> int"
  getVBaseClassOffset :: "CXXRecordDecl \<Rightarrow> int"
  getVBaseOffsetsMap :: "CXXRecordDecl \<rightharpoonup> VBaseInfo"
  getFieldOffset :: "nat \<Rightarrow> nat"

record TargetInfo =
  isMicrosoft :: bool
  getPointerWidth :: nat
  getPointerAlign :: nat
  getCharWidth :: nat

record ASTContext =
  getSourceManager :: SourceManager
  getASTRecordLayout :: "CXXRecordDecl \<Rightarrow> ASTRecordLayout"
  getTargetInfo :: TargetInfo

text \<open>
  \<open>toCharUnitsFromBits\<close> divides by the width of a character of the target and \<open>toBits\<close>
  multiplies by it; the width is a positive constant of the target (8 on the targets
  clang has).
\<close>

definition toCharUnitsFromBits :: "ASTContext \<Rightarrow> nat \<Rightarrow> int" where
  "toCharUnitsFromBits context BitSize = int (BitSize div getCharWidth (getTargetInfo context))"

definition toBits :: "ASTContext \<Rightarrow> int \<Rightarrow> int" where
  "toBits context CharSize = CharSize * int (getCharWidth (getTargetInfo context))"

text \<open>\<open>static_cast<int>\<close> of a \<open>size_t\<close>: the low 32 bits, read as a signed number.\<close>

definition static_cast_int :: "nat \<Rightarrow> int" where
  "static_cast_int n = sint (word_of_nat n :: 32 word)"

section \<open>The location resolver\<close>

text \<open>
  \<open>RetrieveLocation\<close> writes through its reference parameter \<open>output\<close>; here it returns the
  new value of the location together with the state. On the two early returns the
  location comes back as it was given.
\<close>

definition RetrieveLocation ::
  "Location \<Rightarrow> ASTContext \<Rightarrow> SourceLocation \<Rightarrow> globals \<Rightarrow> Location \<times> globals" where
  "RetrieveLocation output context location g =
     (let sourceManager = getSourceManager context
      in if \<not> isValid location then (output, g)
         else
           let startLocation = getPresumedLoc sourceManager location;
               fileId = getFileID startLocation
           in if \<not> isValid_PresumedLoc startLocation \<or> \<not> isValid_FileID fileId then (output, g)
              else
                let (idx, g') = AddFileToDictionary fileId (getFilename startLocation) g
                in (output\<lparr>fileIndex := static_cast_int idx,
                             line := getLine startLocation,
                             column := getColumn startLocation\<rparr>, g'))"

section \<open>The layout tree builder\<close>

text \<open>
  The ways a build stops: the two assertions of \<open>ComputeStruct\<close>, and the dereference of
  the past-the-end iterator when \<open>find\<close> does not find the virtual base in the map.
\<close>

datatype failure = Assert_DependentBase | Assert_NonVirtualClass | VBaseNotInMap

text \<open>A range-based \<open>for\<close> loop whose body may stop the build.\<close>

fun for_each :: "'a list \<Rightarrow> ('a \<Rightarrow> 's \<Rightarrow> failure + 's) \<Rightarrow> 's \<Rightarrow> failure + 's" where
  "for_each [] body s = Inr s"
| "for_each (x # xs) body s =
     (case body x s of Inl e \<Rightarrow> Inl e | Inr s' \<Rightarrow> for_each xs body s')"

lemma for_each_cong [fundef_cong]:
  "xs = ys \<Longrightarrow> s = t \<Longrightarrow> (\<And>x u. x \<in> set ys \<Longrightarrow> body x u = body' x u)
   \<Longrightarrow> for_each xs body s = for_each ys body' t"
proof (induction ys arbitrary: xs s t)
  case Nil
  then show ?case by simp
next
  case (Cons y ys)
  then show ?case by (auto split: sum.splits)
qed

text \<open>
  \<open>new Layout::Node()\<close>: a node without children. The values its constructor gives the
  scalar members are declared in \<open>LayoutDefinitions.h\<close>, which is not among the sources;
  they are the parameter \<open>init\<close>. A location member that is never assigned keeps
  the value it has in \<open>init\<close>.
\<close>

definition new_Node :: "NodeInfo \<Rightarrow> Node" where
  "new_Node init = Node init []"

text \<open>The node for a vtable, vftable or vbtable pointer.\<close>

definition pointer_Node :: "NodeInfo \<Rightarrow> ASTContext \<Rightarrow> Category \<Rightarrow> int \<Rightarrow> Node" where
  "pointer_Node init context cat off =
     update (\<lambda>n. n\<lparr>nature := cat, offset := off,
               size' := toCharUnitsFromBits context (getPointerWidth (getTargetInfo context)),
               align := toCharUnitsFromBits context (getPointerAlign (getTargetInfo context))\<rparr>)
       (new_Node init)"

text \<open>The first loop over \<open>bases()\<close>: the assertion, and the non-virtual bases collected.\<close>

fun collect_nvbases :: "CXXBaseSpecifier list \<Rightarrow> CXXRecordDecl list \<Rightarrow> failure + CXXRecordDecl list" where
  "collect_nvbases [] nvbases = Inr nvbases"
| "collect_nvbases (base # rest) nvbases =
     (if isDependentType_base base then Inl Assert_DependentBase
      else collect_nvbases rest
             (if \<not> isVirtual base then nvbases @ [getAsCXXRecordDecl_base base] else nvbases))"

text \<open>
  \<open>llvm::stable_sort\<close> with the comparison \<open>key lhs < key rhs\<close>: the stable sort by key of
  the library.
\<close>

definition stable_sort :: "('a \<Rightarrow> int) \<Rightarrow> 'a list \<Rightarrow> 'a list" where
  "stable_sort key xs = sort_key key xs"

text \<open>
  The assignments the bitfield branch and the simple-field branch share: name, type,
  category, offset, and the byte size and alignment of the type.
\<close>

definition simple_Node :: "NodeInfo \<Rightarrow> ASTContext \<Rightarrow> Category \<Rightarrow> FieldDeclInfo \<Rightarrow> int \<Rightarrow> Node" where
  "simple_Node init context cat field fieldOffset =
     update (\<lambda>n. n\<lparr>name := getNameAsString field, type := getAsString field,
               nature := cat, offset := fieldOffset,
               size' := toCharUnitsFromBits context (Width (getTypeInfo field)),
               align := toCharUnitsFromBits context (Align (getTypeInfo field))\<rparr>)
       (new_Node init)"

text \<open>The node for the vtordisp of a virtual base at offset \<open>vBaseOffset\<close>.\<close>

definition vtorDisp_Node :: "NodeInfo \<Rightarrow> int \<Rightarrow> Node" where
  "vtorDisp_Node init vBaseOffset =
     update (\<lambda>n. n\<lparr>nature := VtorDisp, offset := vBaseOffset - 4, size' := 4, align := 4\<rparr>)
       (new_Node init)"

text \<open>
  The node for a bitfield, with the node \<open>extraData\<close> as its only child: the bit offset
  left over from the byte offset, and the bit width.
\<close>

definition Bitfield_Node :: "NodeInfo \<Rightarrow> ASTContext \<Rightarrow> FieldDeclInfo \<Rightarrow> nat \<Rightarrow> Node" where
  "Bitfield_Node init context field localFieldOffsetInBits =
     (let fieldOffset = toCharUnitsFromBits context localFieldOffsetInBits;
          fieldNode = simple_Node init context Bitfield field fieldOffset;
          extraData =
            update (\<lambda>n. n\<lparr>offset := int localFieldOffsetInBits - toBits context fieldOffset,
                          size' := int (getBitWidthValue field)\<rparr>)
              (new_Node init)
      in push_back fieldNode extraData)"

text \<open>
  The bodies of the three loops that recurse, over the sorted non-virtual bases, the
  fields paired with their index, and the virtual bases. Each takes the node under
  construction and the state and gives them back, the node with what it pushed; the
  recursive call is the parameter \<open>ComputeStruct'\<close>.
\<close>

type_synonym build = "CXXRecordDecl \<Rightarrow> bool \<Rightarrow> globals \<Rightarrow> failure + Node \<times> globals"

definition nvbase_body ::
  "build \<Rightarrow> ASTRecordLayout \<Rightarrow> CXXRecordDecl \<Rightarrow> Node \<times> globals \<Rightarrow> failure + Node \<times> globals" where
  "nvbase_body ComputeStruct' layout base =
     (\<lambda>(node, g).
        case ComputeStruct' base False g of
          Inl e \<Rightarrow> Inl e
        | Inr (baseNode, g) \<Rightarrow>
            Inr (push_back node
                   (update (\<lambda>n. n\<lparr>offset := getBaseClassOffset layout base,
                                   nature := (if Some base = getPrimaryBase layout
                                              then NVPrimaryBase else NVBase)\<rparr>)
                      baseNode), g))"

definition field_body ::
  "build \<Rightarrow> NodeInfo \<Rightarrow> ASTContext \<Rightarrow> ASTRecordLayout \<Rightarrow> nat \<times> FieldDecl
   \<Rightarrow> Node \<times> globals \<Rightarrow> failure + Node \<times> globals" where
  "field_body ComputeStruct' init context layout =
     (\<lambda>(fieldNo, field) (node, g).
        let localFieldOffsetInBits = getFieldOffset layout fieldNo;
            fieldOffset = toCharUnitsFromBits context localFieldOffsetInBits
        in case getAsCXXRecordDecl field of
             Some fieldDeclarationCXX \<Rightarrow>
               (case ComputeStruct' fieldDeclarationCXX True g of
                  Inl e \<Rightarrow> Inl e
                | Inr (fieldNode, g) \<Rightarrow>
                    let fieldNode =
                          update (\<lambda>n. n\<lparr>name := getNameAsString (field_info field),
                                        type := getAsString (field_info field),
                                        offset := fieldOffset,
                                        nature := ComplexField\<rparr>) fieldNode;
                        (loc, g) = RetrieveLocation (fieldLocation (info fieldNode)) context
                                     (getLocation_field (field_info field)) g;
                        fieldNode = update (\<lambda>n. n\<lparr>fieldLocation := loc\<rparr>) fieldNode
                    in Inr (push_back node fieldNode, g))
           | None \<Rightarrow>
               if isBitField (field_info field)
               then Inr (push_back node
                           (Bitfield_Node init context (field_info field) localFieldOffsetInBits), g)
               else
                 let fieldNode = simple_Node init context SimpleField (field_info field) fieldOffset;
                     (loc, g) = RetrieveLocation (fieldLocation (info fieldNode)) context
                                  (getLocation_field (field_info field)) g;
                     fieldNode = update (\<lambda>n. n\<lparr>fieldLocation := loc\<rparr>) fieldNode
                 in Inr (push_back node fieldNode, g))"

definition vbase_body ::
  "build \<Rightarrow> NodeInfo \<Rightarrow> ASTRecordLayout \<Rightarrow> CXXBaseSpecifier
   \<Rightarrow> Node \<times> globals \<Rightarrow> failure + Node \<times> globals" where
  "vbase_body ComputeStruct' init layout Base =
     (\<lambda>(node, g).
        if \<not> isVirtual Base then Inl Assert_NonVirtualClass
        else
          let vBase = getAsCXXRecordDecl_base Base;
              vBaseOffset = getVBaseClassOffset layout vBase
          in case getVBaseOffsetsMap layout vBase of
               None \<Rightarrow> Inl VBaseNotInMap
             | Some vtorDisp \<Rightarrow>
                 let node = (if hasVtorDisp vtorDisp
                             then push_back node (vtorDisp_Node init vBaseOffset)
                             else node)
                 in case ComputeStruct' vBase False g of
                      Inl e \<Rightarrow> Inl e
                    | Inr (vBaseNode, g) \<Rightarrow>
                        Inr (push_back node
                               (update (\<lambda>n. n\<lparr>offset := vBaseOffset,
                                               nature := (if Some vBase = getPrimaryBase layout
                                                          then VPrimaryBase else VBase)\<rparr>)
                                  vBaseNode), g))"

lemma nvbase_body_cong [fundef_cong]:
  "base = base' \<Longrightarrow> s = s' \<Longrightarrow> layout = layout'
   \<Longrightarrow> (\<And>g. f base' False g = f' base' False g)
   \<Longrightarrow> nvbase_body f layout base s = nvbase_body f' layout' base' s'"
  by (simp add: nvbase_body_def split: prod.splits)

lemma field_body_cong [fundef_cong]:
  "p = p' \<Longrightarrow> s = s' \<Longrightarrow> init = init' \<Longrightarrow> context = context' \<Longrightarrow> layout = layout'
   \<Longrightarrow> (\<And>d g. getAsCXXRecordDecl (snd p') = Some d \<Longrightarrow> f d True g = f' d True g)
   \<Longrightarrow> field_body f init context layout p s = field_body f' init' context' layout' p' s'"
  by (simp add: field_body_def Let_def split: prod.splits option.splits)

lemma vbase_body_cong [fundef_cong]:
  "Base = Base' \<Longrightarrow> s = s' \<Longrightarrow> init = init' \<Longrightarrow> layout = layout'
   \<Longrightarrow> (\<And>g. f (getAsCXXRecordDecl_base Base') False g = f' (getAsCXXRecordDecl_base Base') False g)
   \<Longrightarrow> vbase_body f init layout Base s = vbase_body f' init' layout' Base' s'"
  by (simp add: vbase_body_def Let_def split: prod.splits option.splits)

subsection \<open>The recursion\<close>

text \<open>The declarations a build recurses into are smaller than the one it is given.\<close>

lemma collect_nvbases_set:
  "collect_nvbases bs acc = Inr xs \<Longrightarrow> set xs \<subseteq> set acc \<union> getAsCXXRecordDecl_base ` set bs"
proof (induction bs arbitrary: acc)
  case Nil
  then show ?case by simp
next
  case (Cons b bs)
  from Cons.prems have nd: "\<not> isDependentType_base b" by (simp split: if_splits)
  show ?case
  proof (cases "isVirtual b")
    case True
    with Cons.prems nd have "collect_nvbases bs acc = Inr xs" by simp
    from Cons.IH[OF this] show ?thesis by auto
  next
    case False
    with Cons.prems nd have "collect_nvbases bs (acc @ [getAsCXXRecordDecl_base b]) = Inr xs" by simp
    from Cons.IH[OF this] show ?thesis by auto
  qed
qed

lemma base_size: "b \<in> set bs \<Longrightarrow> size (getAsCXXRecordDecl_base b) < Suc (size_list size bs)"
proof (induction bs)
  case Nil
  then show ?case by simp
next
  case (Cons a bs)
  show ?case
  proof (cases "b = a")
    case True
    then show ?thesis by (cases a) simp
  next
    case False
    with Cons show ?thesis by auto
  qed
qed

lemma nvbase_size:
  "collect_nvbases bs [] = Inr xs \<Longrightarrow> x \<in> set (stable_sort k xs)
   \<Longrightarrow> size x < Suc (size_list size bs + a + b)"
proof -
  assume c: "collect_nvbases bs [] = Inr xs" and x: "x \<in> set (stable_sort k xs)"
  from x have "x \<in> set xs" by (simp add: stable_sort_def)
  with collect_nvbases_set[OF c] obtain b where "b \<in> set bs" "x = getAsCXXRecordDecl_base b"
    by auto
  then show ?thesis using base_size [of b bs] by simp
qed

lemma field_size:
  "f \<in> set fs \<Longrightarrow> getAsCXXRecordDecl f = Some x \<Longrightarrow> size x < Suc (size_list size fs)"
proof (induction fs)
  case Nil
  then show ?case by simp
next
  case (Cons a fs)
  show ?case
  proof (cases "f = a")
    case True
    with Cons.prems show ?thesis by (cases a) simp
  next
    case False
    with Cons show ?thesis by auto
  qed
qed

lemma enumerate_field_size:
  "p \<in> set (enumerate n fs) \<Longrightarrow> getAsCXXRecordDecl (snd p) = Some x
   \<Longrightarrow> size x < Suc (a + b + size_list size fs)"
  using field_size [of "snd p" fs x] by (cases p) (auto simp: in_set_enumerate_eq)

lemma vbase_size:
  "b \<in> set bs \<Longrightarrow> size (getAsCXXRecordDecl_base b) < Suc (a + size_list size bs + c)"
  using base_size [of b bs] by simp

text \<open>
  \<open>ComputeStruct\<close>. The assertions are taken as compiled in. The result is the node with
  the state, or the failure.
\<close>

function ComputeStruct ::
  "NodeInfo \<Rightarrow> ASTContext \<Rightarrow> CXXRecordDecl \<Rightarrow> bool \<Rightarrow> globals \<Rightarrow> failure + Node \<times> globals" where
  "ComputeStruct init context (CXXRecordDecl dinfo dbases dvbases dfields) includeVirtualBases g =
     (let declaration = CXXRecordDecl dinfo dbases dvbases dfields;
          node = new_Node init;
          (loc, g) = RetrieveLocation (typeLocation (info node)) context (getLocation dinfo) g;
          layout = getASTRecordLayout context declaration;
          node = update (\<lambda>n. n\<lparr>typeLocation := loc,
                              type := getQualifiedNameAsString dinfo,
                              size' := (if includeVirtualBases then getSize layout
                                        else getNonVirtualSize layout),
                              align := getAlignment layout\<rparr>) node;
          primaryBase = getPrimaryBase layout;
          node = (if isDynamicClass dinfo \<and> primaryBase = None
                     \<and> \<not> isMicrosoft (getTargetInfo context)
                  then push_back node (pointer_Node init context VTablePtr 0)
                  else if hasOwnVFPtr layout
                  then push_back node (pointer_Node init context VFTablePtr 0)
                  else node)
      in case collect_nvbases dbases [] of
           Inl e \<Rightarrow> Inl e
         | Inr nvbases \<Rightarrow>
            (case for_each (stable_sort (getBaseClassOffset layout) nvbases)
                    (nvbase_body (\<lambda>d v g. ComputeStruct init context d v g) layout) (node, g) of
               Inl e \<Rightarrow> Inl e
             | Inr (node, g) \<Rightarrow>
                (let node = (if hasOwnVBPtr layout
                             then push_back node
                                    (pointer_Node init context VBTablePtr (getVBPtrOffset layout))
                             else node)
                 in case for_each (enumerate 0 dfields)
                           (field_body (\<lambda>d v g. ComputeStruct init context d v g)
                              init context layout) (node, g) of
                      Inl e \<Rightarrow> Inl e
                    | Inr (node, g) \<Rightarrow>
                        if includeVirtualBases
                        then for_each dvbases
                               (vbase_body (\<lambda>d v g. ComputeStruct init context d v g) init layout)
                               (node, g)
                        else Inr (node, g))))"
  by pat_completeness auto


termination
  apply (relation "measure (\<lambda>(i, c, d, b, g). size d)")
     apply simp
    apply (simp, rule nvbase_size, assumption, assumption)
   apply (simp, rule enumerate_field_size, assumption, assumption)
  apply (simp, rule vbase_size, assumption)
  done

subsection \<open>Declarations a build does not fail on\<close>

lemma base_size_first:
  "b \<in> set bs \<Longrightarrow> size (getAsCXXRecordDecl_base b) < Suc (size_list size bs + a + c)"
  using base_size [of b bs] by simp

lemma field_size_last:
  "f \<in> set fs \<Longrightarrow> getAsCXXRecordDecl f = Some x \<Longrightarrow> size x < Suc (a + b + size_list size fs)"
  using field_size [of f fs x] by simp

text \<open>
  The declarations on which a build meets none of its failures: no base is of dependent
  type, every specifier among the virtual bases is virtual and in the layout's map, and
  the same holds for every declaration the build recurses into.
\<close>

function well_formed :: "ASTContext \<Rightarrow> CXXRecordDecl \<Rightarrow> bool" where
  "well_formed context (CXXRecordDecl dinfo dbases dvbases dfields) =
     ((\<forall>base\<in>set dbases. \<not> isDependentType_base base
          \<and> (\<not> isVirtual base \<longrightarrow> well_formed context (getAsCXXRecordDecl_base base)))
      \<and> (\<forall>Base\<in>set dvbases. isVirtual Base
          \<and> getVBaseOffsetsMap
                (getASTRecordLayout context (CXXRecordDecl dinfo dbases dvbases dfields))
                (getAsCXXRecordDecl_base Base) \<noteq> None
          \<and> well_formed context (getAsCXXRecordDecl_base Base))
      \<and> (\<forall>field\<in>set dfields.
            case getAsCXXRecordDecl field of
              None \<Rightarrow> True
            | Some fieldDeclarationCXX \<Rightarrow> well_formed context fieldDeclarationCXX))"
  by pat_completeness auto
termination
  apply (relation "measure (\<lambda>(c, d). size d)")
     apply simp
    apply (simp, rule base_size_first, assumption)
   apply (simp, rule vbase_size, assumption)
  apply (simp, rule field_size_last, assumption, assumption)
  done


section \<open>The declaration locator\<close>

text \<open>
  What the visitor reads of a variable declaration: its location, the record its type
  names, if any, and its source range. A declaration the traversal reaches is a record, a
  variable, or one the visitor has no \<open>Visit\<close> function for.
\<close>

record VarDecl =
  getLocation_var :: SourceLocation
  getAsCXXRecordDecl_var :: "CXXRecordDecl option"
  getSourceRange_var :: SourceRange

datatype Decl = CXXRecord CXXRecordDecl | Var VarDecl | OtherDecl

text \<open>The members of the visitor, and its constructor.\<close>

record FindStructAtLocationVisitor =
  m_sourceManager :: SourceManager
  m_best :: "CXXRecordDecl option"
  m_mainFileId :: FileID
  m_bestStartLine :: "32 word"
  m_bestStartCol :: "32 word"

definition new_FindStructAtLocationVisitor :: "SourceManager \<Rightarrow> FindStructAtLocationVisitor" where
  "new_FindStructAtLocationVisitor sourceManager =
     \<lparr>m_sourceManager = sourceManager, m_best = None,
      m_mainFileId = getMainFileID sourceManager,
      m_bestStartLine = 0, m_bestStartCol = 0\<rparr>"

text \<open>
  \<open>TryRecord\<close> reads the filter from the process-wide state. The lines and columns are
  read from the presumed locations as they are; their validity is not asked for.
\<close>

definition TryRecord ::
  "globals \<Rightarrow> FindStructAtLocationVisitor \<Rightarrow> CXXRecordDecl option \<Rightarrow> SourceRange
   \<Rightarrow> FindStructAtLocationVisitor" where
  "TryRecord g v declaration sourceRange =
     (case declaration of
        None \<Rightarrow> v
      | Some d \<Rightarrow>
          if \<not> isDependentType (decl_info d) \<and> getDefinition (decl_info d)
             \<and> \<not> isInvalidDecl (decl_info d) \<and> isCompleteDefinition (decl_info d)
          then
            let startLocation = getPresumedLoc (m_sourceManager v) (getBegin sourceRange);
                endLocation = getPresumedLoc (m_sourceManager v) (getEnd sourceRange);
                startLine = getLine startLocation;
                startCol = getColumn startLocation;
                endLine = getLine endLocation;
                endCol = getColumn endLocation
            in if (row (g_locationFilter g) > startLine
                   \<or> (row (g_locationFilter g) = startLine \<and> col (g_locationFilter g) \<ge> startCol))
                  \<and> (row (g_locationFilter g) < endLine
                       \<or> (row (g_locationFilter g) = endLine \<and> col (g_locationFilter g) \<le> endCol))
                  \<and> (startLine > m_bestStartLine v
                       \<or> (startLine = m_bestStartLine v \<and> startCol > m_bestStartCol v))
               then v\<lparr>m_best := Some d, m_bestStartLine := startLine, m_bestStartCol := startCol\<rparr>
               else v
          else v)"

definition VisitCXXRecordDecl ::
  "globals \<Rightarrow> FindStructAtLocationVisitor \<Rightarrow> CXXRecordDecl \<Rightarrow> FindStructAtLocationVisitor" where
  "VisitCXXRecordDecl g v declaration =
     (if getFileID_of (m_sourceManager v) (getLocation (decl_info declaration)) = m_mainFileId v
      then TryRecord g v (Some declaration) (getSourceRange (decl_info declaration))
      else v)"

definition VisitVarDecl ::
  "globals \<Rightarrow> FindStructAtLocationVisitor \<Rightarrow> VarDecl \<Rightarrow> FindStructAtLocationVisitor" where
  "VisitVarDecl g v declaration =
     (if getFileID_of (m_sourceManager v) (getLocation_var declaration) = m_mainFileId v
      then TryRecord g v (getAsCXXRecordDecl_var declaration) (getSourceRange_var declaration)
      else v)"

definition GetBest :: "FindStructAtLocationVisitor \<Rightarrow> CXXRecordDecl option" where
  "GetBest v = m_best v"

text \<open>
  \<open>TraverseDecl\<close> belongs to clang's \<open>RecursiveASTVisitor\<close>: it walks a top-level declaration
  and calls the two \<open>Visit\<close> functions on the record and variable declarations it reaches.
  A top-level declaration is given here by the sequence of declarations the walk reaches.
\<close>

fun Visit :: "globals \<Rightarrow> Decl \<Rightarrow> FindStructAtLocationVisitor \<Rightarrow> FindStructAtLocationVisitor" where
  "Visit g (CXXRecord declaration) v = VisitCXXRecordDecl g v declaration"
| "Visit g (Var declaration) v = VisitVarDecl g v declaration"
| "Visit g OtherDecl v = v"

definition TraverseDecl ::
  "globals \<Rightarrow> Decl list \<Rightarrow> FindStructAtLocationVisitor \<Rightarrow> FindStructAtLocationVisitor" where
  "TraverseDecl g Decl v = fold (Visit g) Decl v"

text \<open>
  The first half of \<open>HandleTranslationUnit\<close>: a fresh visitor traverses every top-level
  declaration, and \<open>GetBest\<close> gives what it found. The second half builds the tree for it
  and stores it as the root.
\<close>

definition locate :: "globals \<Rightarrow> SourceManager \<Rightarrow> Decl list list \<Rightarrow> CXXRecordDecl option" where
  "locate g sourceManager Decls =
     GetBest (fold (TraverseDecl g) Decls (new_FindStructAtLocationVisitor sourceManager))"

definition HandleTranslationUnit ::
  "NodeInfo \<Rightarrow> ASTContext \<Rightarrow> Decl list list \<Rightarrow> globals \<Rightarrow> failure + globals" where
  "HandleTranslationUnit init context Decls g =
     (case locate g (getSourceManager context) Decls of
        None \<Rightarrow> Inr g
      | Some best \<Rightarrow>
          (case ComputeStruct init context best True g of
             Inl e \<Rightarrow> Inl e
           | Inr (root, g') \<Rightarrow> Inr (g'\<lparr>g_result := (g_result g')\<lparr>node := Some root\<rparr>\<rparr>)))"

subsection \<open>The locator as the specification words it\<close>

type_synonym position = "32 word \<times> 32 word"

definition pos_less :: "position \<Rightarrow> position \<Rightarrow> bool" where
  "pos_less p q \<longleftrightarrow> fst p < fst q \<or> (fst p = fst q \<and> snd p < snd q)"

definition pos_le :: "position \<Rightarrow> position \<Rightarrow> bool" where
  "pos_le p q \<longleftrightarrow> fst p < fst q \<or> (fst p = fst q \<and> snd p \<le> snd q)"

definition eligible :: "CXXRecordDecl \<Rightarrow> bool" where
  "eligible d \<longleftrightarrow>
     \<not> isDependentType (decl_info d) \<and> getDefinition (decl_info d)
     \<and> \<not> isInvalidDecl (decl_info d) \<and> isCompleteDefinition (decl_info d)"

definition range_of :: "SourceManager \<Rightarrow> SourceRange \<Rightarrow> position \<times> position" where
  "range_of sourceManager r =
     ((getLine (getPresumedLoc sourceManager (getBegin r)),
       getColumn (getPresumedLoc sourceManager (getBegin r))),
      (getLine (getPresumedLoc sourceManager (getEnd r)),
       getColumn (getPresumedLoc sourceManager (getEnd r))))"

text \<open>
  The candidate a visited declaration stands for, when it has one: a record declaration
  of the main file with its own range, or the record of a main-file variable's type with
  the variable's range.
\<close>

fun candidate :: "SourceManager \<Rightarrow> Decl \<Rightarrow> (CXXRecordDecl \<times> position \<times> position) option" where
  "candidate sm (CXXRecord d) =
     (if getFileID_of sm (getLocation (decl_info d)) = getMainFileID sm \<and> eligible d
      then Some (d, range_of sm (getSourceRange (decl_info d))) else None)"
| "candidate sm (Var x) =
     (case getAsCXXRecordDecl_var x of
        None \<Rightarrow> None
      | Some d \<Rightarrow>
          if getFileID_of sm (getLocation_var x) = getMainFileID sm \<and> eligible d
          then Some (d, range_of sm (getSourceRange_var x)) else None)"
| "candidate sm OtherDecl = None"

definition contains :: "position \<Rightarrow> CXXRecordDecl \<times> position \<times> position \<Rightarrow> bool" where
  "contains p c \<longleftrightarrow> pos_le (fst (snd c)) p \<and> pos_le p (snd (snd c))"

text \<open>The eligible candidates whose range contains the filter position, in traversal order.\<close>

definition containing ::
  "globals \<Rightarrow> SourceManager \<Rightarrow> Decl list list \<Rightarrow> (CXXRecordDecl \<times> position \<times> position) list" where
  "containing g sm Decls =
     filter (contains (row (g_locationFilter g), col (g_locationFilter g)))
       (List.map_filter (candidate sm) (concat Decls))"

definition best_start :: "FindStructAtLocationVisitor \<Rightarrow> position" where
  "best_start v = (m_bestStartLine v, m_bestStartCol v)"

text \<open>What one containing candidate does to the visitor.\<close>

definition consider_candidate ::
  "CXXRecordDecl \<times> position \<times> position \<Rightarrow> FindStructAtLocationVisitor \<Rightarrow> FindStructAtLocationVisitor" where
  "consider_candidate c v =
     (if pos_less (best_start v) (fst (snd c))
      then v\<lparr>m_best := Some (fst c), m_bestStartLine := fst (fst (snd c)),
             m_bestStartCol := snd (fst (snd c))\<rparr>
      else v)"


section \<open>What a build emits\<close>

definition vptr_nodes :: "NodeInfo \<Rightarrow> ASTContext \<Rightarrow> CXXRecordDecl \<Rightarrow> Node list" where
  "vptr_nodes init context declaration =
     (let layout = getASTRecordLayout context declaration
      in if isDynamicClass (decl_info declaration) \<and> getPrimaryBase layout = None
            \<and> \<not> isMicrosoft (getTargetInfo context)
         then [pointer_Node init context VTablePtr 0]
         else if hasOwnVFPtr layout then [pointer_Node init context VFTablePtr 0]
         else [])"

definition vbptr_nodes :: "NodeInfo \<Rightarrow> ASTContext \<Rightarrow> CXXRecordDecl \<Rightarrow> Node list" where
  "vbptr_nodes init context declaration =
     (let layout = getASTRecordLayout context declaration
      in if hasOwnVBPtr layout
         then [pointer_Node init context VBTablePtr (getVBPtrOffset layout)]
         else [])"

definition nvbases_of :: "CXXRecordDecl \<Rightarrow> CXXRecordDecl list" where
  "nvbases_of declaration =
     map getAsCXXRecordDecl_base (filter (\<lambda>base. \<not> isVirtual base) (bases declaration))"

definition emits ::
  "('a \<Rightarrow> Node \<times> globals \<Rightarrow> failure + Node \<times> globals) \<Rightarrow> 'a \<Rightarrow> Node list \<Rightarrow> bool" where
  "emits body x ys \<longleftrightarrow>
     (\<exists>n g n' g'. body x (n, g) = Inr (n', g') \<and> children n' = children n @ ys)"


definition nvbase_child ::
  "NodeInfo \<Rightarrow> ASTContext \<Rightarrow> ASTRecordLayout \<Rightarrow> CXXRecordDecl \<Rightarrow> Node \<Rightarrow> bool" where
  "nvbase_child init context layout base child \<longleftrightarrow>
     (\<exists>g baseNode g'.
        ComputeStruct init context base False g = Inr (baseNode, g')
      \<and> child = update (\<lambda>n. n\<lparr>offset := getBaseClassOffset layout base,
                               nature := (if Some base = getPrimaryBase layout
                                          then NVPrimaryBase else NVBase)\<rparr>) baseNode)"

definition vbase_children ::
  "NodeInfo \<Rightarrow> ASTContext \<Rightarrow> ASTRecordLayout \<Rightarrow> CXXBaseSpecifier \<Rightarrow> Node list \<Rightarrow> bool" where
  "vbase_children init context layout Base ys \<longleftrightarrow>
     (\<exists>vtorDisp g vBaseNode g'.
        getVBaseOffsetsMap layout (getAsCXXRecordDecl_base Base) = Some vtorDisp
      \<and> ComputeStruct init context (getAsCXXRecordDecl_base Base) False g = Inr (vBaseNode, g')
      \<and> ys = (if hasVtorDisp vtorDisp
               then [vtorDisp_Node init (getVBaseClassOffset layout (getAsCXXRecordDecl_base Base))]
               else [])
            @ [update (\<lambda>n. n\<lparr>offset := getVBaseClassOffset layout (getAsCXXRecordDecl_base Base),
                              nature := (if Some (getAsCXXRecordDecl_base Base) = getPrimaryBase layout
                                         then VPrimaryBase else VBase)\<rparr>) vBaseNode])"

definition field_child ::
  "NodeInfo \<Rightarrow> ASTContext \<Rightarrow> ASTRecordLayout \<Rightarrow> nat \<times> FieldDecl \<Rightarrow> Node \<Rightarrow> bool" where
  "field_child init context layout p child \<longleftrightarrow>
     (case getAsCXXRecordDecl (snd p) of
        Some fieldDeclarationCXX \<Rightarrow>
          (\<exists>g fieldNode g1 loc g'.
             ComputeStruct init context fieldDeclarationCXX True g = Inr (fieldNode, g1)
           \<and> RetrieveLocation (fieldLocation (info fieldNode)) context
                (getLocation_field (field_info (snd p))) g1 = (loc, g')
           \<and> child = update (\<lambda>n. n\<lparr>fieldLocation := loc\<rparr>)
                       (update (\<lambda>n. n\<lparr>name := getNameAsString (field_info (snd p)),
                                      type := getAsString (field_info (snd p)),
                                      offset := toCharUnitsFromBits context
                                                  (getFieldOffset layout (fst p)),
                                      nature := ComplexField\<rparr>) fieldNode))
      | None \<Rightarrow>
          if isBitField (field_info (snd p))
          then child = Bitfield_Node init context (field_info (snd p))
                         (getFieldOffset layout (fst p))
          else (\<exists>g loc g'.
                  RetrieveLocation (fieldLocation init) context
                    (getLocation_field (field_info (snd p))) g = (loc, g')
                \<and> child = update (\<lambda>n. n\<lparr>fieldLocation := loc\<rparr>)
                            (simple_Node init context SimpleField (field_info (snd p))
                               (toCharUnitsFromBits context (getFieldOffset layout (fst p))))))"


definition resolvable :: "ASTContext \<Rightarrow> SourceLocation \<Rightarrow> bool" where
  "resolvable context location \<longleftrightarrow>
     isValid location
     \<and> isValid_PresumedLoc (getPresumedLoc (getSourceManager context) location)
     \<and> isValid_FileID (getFileID (getPresumedLoc (getSourceManager context) location))"


text \<open>Where the fields and the virtual bases begin among the children of a built node.\<close>

definition first_field_index :: "NodeInfo \<Rightarrow> ASTContext \<Rightarrow> CXXRecordDecl \<Rightarrow> nat" where
  "first_field_index init context declaration =
     length (vptr_nodes init context declaration) + length (nvbases_of declaration)
     + length (vbptr_nodes init context declaration)"

definition first_vbase_index :: "NodeInfo \<Rightarrow> ASTContext \<Rightarrow> CXXRecordDecl \<Rightarrow> nat" where
  "first_vbase_index init context declaration =
     first_field_index init context declaration + length (fields' declaration)"


text \<open>A property of the children of every node of a tree; the offsets of the non-virtual bases among some children.\<close>

fun tree_all :: "(Node list \<Rightarrow> bool) \<Rightarrow> Node \<Rightarrow> bool" where
  "tree_all Q (Node i cs) = (Q cs \<and> (\<forall>c\<in>set cs. tree_all Q c))"

definition nvbase_offsets :: "Node list \<Rightarrow> int list" where
  "nvbase_offsets cs =
     map (offset \<circ> info)
       (filter (\<lambda>c. nature (info c) = NVBase \<or> nature (info c) = NVPrimaryBase) cs)"


text \<open>
  The children of a node built for a record declaration, in the order the builder emits
  them, each child tied to the declaration it comes from: the vtable or vftable pointer,
  one child for each direct non-virtual base in the order of the stable sort by offset,
  the vbtable pointer, one child for each field in declaration order, and what each
  virtual base emits, in the order of \<open>vbases\<close>.
\<close>

definition emission_order ::
  "NodeInfo \<Rightarrow> ASTContext \<Rightarrow> CXXRecordDecl \<Rightarrow> bool \<Rightarrow> Node list \<Rightarrow> bool" where
  "emission_order init context declaration includeVirtualBases cs \<longleftrightarrow>
     (\<exists>nvs fs vss.
        cs = vptr_nodes init context declaration @ nvs @ vbptr_nodes init context declaration
             @ fs @ concat vss
      \<and> list_all2 (nvbase_child init context (getASTRecordLayout context declaration))
          (stable_sort (getBaseClassOffset (getASTRecordLayout context declaration))
             (nvbases_of declaration)) nvs
      \<and> list_all2 (field_child init context (getASTRecordLayout context declaration))
          (enumerate 0 (fields' declaration)) fs
      \<and> (if includeVirtualBases
          then list_all2 (vbase_children init context (getASTRecordLayout context declaration))
                 (vbases declaration) vss
          else vss = []))"

text \<open>
  The children of any node of a tree: none, for a pointer, a simple field, a vtordisp or
  a bit position; the bit position, for a bitfield; and for a node built for a record
  declaration, the children of that build, in emission order.
\<close>

definition node_order :: "NodeInfo \<Rightarrow> ASTContext \<Rightarrow> Node list \<Rightarrow> bool" where
  "node_order init context cs \<longleftrightarrow>
       cs = []
     \<or> (\<exists>field bits. cs = children (Bitfield_Node init context field bits))
     \<or> (\<exists>declaration includeVirtualBases g n g'.
           ComputeStruct init context declaration includeVirtualBases g = Inr (n, g')
         \<and> cs = children n
         \<and> emission_order init context declaration includeVirtualBases cs)"


section \<open>Example inputs\<close>

definition G0 :: globals where
  "G0 = \<lparr>g_filenameLookup = Map.empty,
         g_result = \<lparr>node = None, files = []\<rparr>,
         g_locationFilter = \<lparr>row = 0, col = 0\<rparr>\<rparr>"

definition Init :: NodeInfo where
  "Init = \<lparr>name = [], type = [], typeLocation = \<lparr>fileIndex = - 1, line = 0, column = 0\<rparr>,
           fieldLocation = \<lparr>fileIndex = - 1, line = 0, column = 0\<rparr>,
           offset = 0, size' = 0, align = 0, nature = ComplexField\<rparr>"

definition at :: "32 word \<Rightarrow> 32 word \<Rightarrow> SourceLocation" where
  "at l c = SourceLocation True (l * 1000 + c)"

definition SM :: SourceManager where
  "SM = \<lparr>getPresumedLoc = (\<lambda>loc. PresumedLoc (isValid loc) (FileID True 1) ''main.cpp''
                               (getRawEncoding loc div 1000) (getRawEncoding loc mod 1000)),
          getFileID_of = (\<lambda>loc. FileID True 1),
          getMainFileID = FileID True 1\<rparr>"

definition record_info :: "nat \<Rightarrow> string \<Rightarrow> 32 word \<Rightarrow> 32 word \<Rightarrow> bool \<Rightarrow> RecordDeclInfo" where
  "record_info a n l l' dyn =
     \<lparr>address = a, getLocation = at l 8,
      getSourceRange = \<lparr>getBegin = at l 1, getEnd = at l' 2\<rparr>,
      getQualifiedNameAsString = n, isDynamicClass = dyn, isDependentType = False,
      getDefinition = True, isInvalidDecl = False, isCompleteDefinition = True\<rparr>"

definition int_field :: "string \<Rightarrow> 32 word \<Rightarrow> FieldDecl" where
  "int_field n l =
     FieldDecl \<lparr>getNameAsString = n, getAsString = ''int'',
                getTypeInfo = \<lparr>Width = 32, Align = 32\<rparr>, isBitField = False,
                getBitWidthValue = 0, getLocation_field = at l 7\<rparr> None"

definition bit_field :: "string \<Rightarrow> nat \<Rightarrow> 32 word \<Rightarrow> FieldDecl" where
  "bit_field n w l =
     FieldDecl \<lparr>getNameAsString = n, getAsString = ''unsigned int'',
                getTypeInfo = \<lparr>Width = 32, Align = 32\<rparr>, isBitField = True,
                getBitWidthValue = w, getLocation_field = at l 12\<rparr> None"

definition record_field :: "string \<Rightarrow> string \<Rightarrow> CXXRecordDecl \<Rightarrow> 32 word \<Rightarrow> FieldDecl" where
  "record_field n t d l =
     FieldDecl \<lparr>getNameAsString = n, getAsString = t,
                getTypeInfo = \<lparr>Width = 0, Align = 0\<rparr>, isBitField = False,
                getBitWidthValue = 0, getLocation_field = at l 5\<rparr> (Some d)"

definition Itanium :: TargetInfo where
  "Itanium = \<lparr>isMicrosoft = False, getPointerWidth = 64, getPointerAlign = 64, getCharWidth = 8\<rparr>"

definition Microsoft32 :: TargetInfo where
  "Microsoft32 = \<lparr>isMicrosoft = True, getPointerWidth = 32, getPointerAlign = 32, getCharWidth = 8\<rparr>"

definition plain_layout :: "int \<Rightarrow> int \<Rightarrow> int \<Rightarrow> int \<Rightarrow> ASTRecordLayout" where
  "plain_layout s nvs a nva =
     \<lparr>getSize = s, getNonVirtualSize = nvs, getAlignment = a, getNonVirtualAlignment = nva,
      getPrimaryBase = None, hasOwnVFPtr = False, hasOwnVBPtr = False, getVBPtrOffset = 0,
      getBaseClassOffset = (\<lambda>d. 0), getVBaseClassOffset = (\<lambda>d. 0),
      getVBaseOffsetsMap = Map.empty, getFieldOffset = (\<lambda>i. 0)\<rparr>"

text \<open>
  Itanium ABI, 64-bit:
  \<^verbatim>\<open>struct A { virtual void f(); };
struct B : virtual A { int x; };\<close>
  \<open>A\<close> is the primary base of \<open>B\<close> and sits at offset 0; \<open>x\<close> is at offset 8.
\<close>

definition declA :: CXXRecordDecl where
  "declA = CXXRecordDecl (record_info 1 ''A'' 1 1 True) [] [] []"

definition declB :: CXXRecordDecl where
  "declB = CXXRecordDecl (record_info 2 ''B'' 2 2 True)
             [CXXBaseSpecifier False True declA] [CXXBaseSpecifier False True declA]
             [int_field ''x'' 2]"

definition ctxB :: ASTContext where
  "ctxB = \<lparr>getSourceManager = SM,
            getASTRecordLayout = (\<lambda>d.
              if address (decl_info d) = 2
              then (plain_layout 16 12 8 8)
                     \<lparr>getPrimaryBase := Some declA,
                      getVBaseOffsetsMap := [declA \<mapsto> \<lparr>hasVtorDisp = False\<rparr>],
                      getFieldOffset := (\<lambda>i. 64)\<rparr>
              else plain_layout 8 8 8 8),
            getTargetInfo = Itanium\<rparr>"

text \<open>
  Itanium ABI, 64-bit:
  \<^verbatim>\<open>struct Q { int q; };
struct P { virtual void f(); int p; };
struct R : Q, P { unsigned a : 3; int y; Q m; };\<close>
  \<open>P\<close> is the primary base of \<open>R\<close> at offset 0, \<open>Q\<close> follows at offset 12; the fields
  are at bits 128, 160 and 192.
\<close>

definition declQ :: CXXRecordDecl where
  "declQ = CXXRecordDecl (record_info 3 ''Q'' 1 1 False) [] [] [int_field ''q'' 1]"

definition declP :: CXXRecordDecl where
  "declP = CXXRecordDecl (record_info 4 ''P'' 2 2 True) [] [] [int_field ''p'' 2]"

definition declR :: CXXRecordDecl where
  "declR = CXXRecordDecl (record_info 5 ''R'' 3 7 True)
             [CXXBaseSpecifier False False declQ, CXXBaseSpecifier False False declP] []
             [bit_field ''a'' 3 4, int_field ''y'' 5, record_field ''m'' ''Q'' declQ 6]"

definition ctxR :: ASTContext where
  "ctxR = \<lparr>getSourceManager = SM,
            getASTRecordLayout = (\<lambda>d.
              if address (decl_info d) = 3 then plain_layout 4 4 4 4
              else if address (decl_info d) = 4
              then (plain_layout 16 12 8 8)\<lparr>getFieldOffset := (\<lambda>i. 64)\<rparr>
              else (plain_layout 32 28 8 8)
                     \<lparr>getPrimaryBase := Some declP,
                      getBaseClassOffset := (\<lambda>b. if address (decl_info b) = 3 then 12 else 0),
                      getFieldOffset := (\<lambda>i. if i = 0 then 128 else if i = 1 then 160 else 192)\<rparr>),
            getTargetInfo = Itanium\<rparr>"

text \<open>
  Microsoft ABI, 32-bit:
  \<^verbatim>\<open>struct V { virtual void g(); int v; };
struct M : virtual V { M(); virtual void g(); int m; };\<close>
  \<open>M\<close> has its vbtable pointer at offset 0 and \<open>m\<close> at offset 4; the vtordisp of \<open>V\<close> is
  at offset 8 and \<open>V\<close> at offset 12.
\<close>

definition declV :: CXXRecordDecl where
  "declV = CXXRecordDecl (record_info 6 ''V'' 1 1 True) [] [] [int_field ''v'' 1]"

definition declM :: CXXRecordDecl where
  "declM = CXXRecordDecl (record_info 7 ''M'' 2 2 True)
             [CXXBaseSpecifier False True declV] [CXXBaseSpecifier False True declV]
             [int_field ''m'' 2]"

definition ctxM :: ASTContext where
  "ctxM = \<lparr>getSourceManager = SM,
            getASTRecordLayout = (\<lambda>d.
              if address (decl_info d) = 6
              then (plain_layout 8 8 4 4)\<lparr>hasOwnVFPtr := True, getFieldOffset := (\<lambda>i. 32)\<rparr>
              else (plain_layout 20 8 4 4)
                     \<lparr>hasOwnVBPtr := True, getVBPtrOffset := 0,
                      getVBaseClassOffset := (\<lambda>b. 12),
                      getVBaseOffsetsMap := [declV \<mapsto> \<lparr>hasVtorDisp = True\<rparr>],
                      getFieldOffset := (\<lambda>i. 32)\<rparr>),
            getTargetInfo = Microsoft32\<rparr>"

text \<open>
  Itanium ABI, 64-bit:
  \<^verbatim>\<open>struct alignas(16) W { int w; };
struct X : virtual W { int x; };
struct Y : X { };\<close>
  \<open>X\<close> has alignment 16 because of its virtual base; without it, its alignment is 8.
\<close>

definition declW :: CXXRecordDecl where
  "declW = CXXRecordDecl (record_info 8 ''W'' 1 1 False) [] [] [int_field ''w'' 1]"

definition declX :: CXXRecordDecl where
  "declX = CXXRecordDecl (record_info 9 ''X'' 2 2 True)
             [CXXBaseSpecifier False True declW] [CXXBaseSpecifier False True declW]
             [int_field ''x'' 2]"

definition declY :: CXXRecordDecl where
  "declY = CXXRecordDecl (record_info 10 ''Y'' 3 3 True)
             [CXXBaseSpecifier False False declX] [CXXBaseSpecifier False True declW] []"

definition ctxY :: ASTContext where
  "ctxY = \<lparr>getSourceManager = SM,
            getASTRecordLayout = (\<lambda>d.
              if address (decl_info d) = 8 then plain_layout 16 16 16 16
              else if address (decl_info d) = 9
              then (plain_layout 32 12 16 8)
                     \<lparr>getVBaseClassOffset := (\<lambda>b. 16),
                      getVBaseOffsetsMap := [declW \<mapsto> \<lparr>hasVtorDisp = False\<rparr>],
                      getFieldOffset := (\<lambda>i. 64)\<rparr>
              else (plain_layout 32 12 16 8)
                     \<lparr>getPrimaryBase := Some declX,
                      getVBaseClassOffset := (\<lambda>b. 16),
                      getVBaseOffsetsMap := [declW \<mapsto> \<lparr>hasVtorDisp = False\<rparr>]\<rparr>),
            getTargetInfo = Itanium\<rparr>"


text \<open>
  \<^verbatim>\<open>struct Outer {            // line 1
  struct Inner { int x; }; // lines 2 to 4
};                         // line 5
Outer z;                   // line 7\<close>
\<close>

definition declInner :: CXXRecordDecl where
  "declInner = CXXRecordDecl (record_info 12 ''Outer::Inner'' 2 4 False) [] [] [int_field ''x'' 3]"

definition declOuter :: CXXRecordDecl where
  "declOuter = CXXRecordDecl (record_info 11 ''Outer'' 1 5 False) [] [] []"

definition varZ :: VarDecl where
  "varZ = \<lparr>getLocation_var = at 7 7, getAsCXXRecordDecl_var = Some declOuter,
           getSourceRange_var = \<lparr>getBegin = at 7 1, getEnd = at 7 7\<rparr>\<rparr>"

definition unitOuter :: "Decl list list" where
  "unitOuter = [[CXXRecord declOuter, CXXRecord declInner], [Var varZ]]"

definition filter_at :: "32 word \<Rightarrow> 32 word \<Rightarrow> globals" where
  "filter_at r c = G0\<lparr>g_locationFilter := \<lparr>row = r, col = c\<rparr>\<rparr>"

text \<open>
  \<^verbatim>\<open>struct S { unsigned a : 3; unsigned b : 7; };\<close> with \<open>a\<close> at bit 0 and \<open>b\<close> at bit 3.
\<close>

definition declS :: CXXRecordDecl where
  "declS = CXXRecordDecl (record_info 14 ''S'' 1 1 False) [] []
             [bit_field ''a'' 3 1, bit_field ''b'' 7 1]"

definition ctxS :: ASTContext where
  "ctxS = \<lparr>getSourceManager = SM,
            getASTRecordLayout = (\<lambda>d. (plain_layout 4 4 4 4)
                                        \<lparr>getFieldOffset := (\<lambda>i. if i = 0 then 0 else 3)\<rparr>),
            getTargetInfo = Itanium\<rparr>"


text \<open>
  Itanium ABI, 64-bit:
  \<^verbatim>\<open>struct T1 { };
struct T2 { };
struct U : T1, T2 { unsigned a : 3; unsigned b : 7; };\<close>
  The two empty bases are both at offset 0; \<open>a\<close> is at bit 0 and \<open>b\<close> at bit 3, both in
  the byte at offset 0.
\<close>

definition declT1 :: CXXRecordDecl where
  "declT1 = CXXRecordDecl (record_info 15 ''T1'' 1 1 False) [] [] []"

definition declT2 :: CXXRecordDecl where
  "declT2 = CXXRecordDecl (record_info 16 ''T2'' 2 2 False) [] [] []"

definition declU :: CXXRecordDecl where
  "declU = CXXRecordDecl (record_info 17 ''U'' 3 3 False)
             [CXXBaseSpecifier False False declT1, CXXBaseSpecifier False False declT2] []
             [bit_field ''a'' 3 3, bit_field ''b'' 7 3]"

definition ctxU :: ASTContext where
  "ctxU = \<lparr>getSourceManager = SM,
            getASTRecordLayout = (\<lambda>d.
              if address (decl_info d) = 17
              then (plain_layout 4 4 4 4)\<lparr>getFieldOffset := (\<lambda>i. if i = 0 then 0 else 3)\<rparr>
              else plain_layout 1 1 1 1),
            getTargetInfo = Itanium\<rparr>"


section \<open>Reset\<close>

text \<open>
  C9. \<open>ClearResult\<close> is idempotent: after one call, and equally after two consecutive
  calls from any starting state, the root node is absent, the file table is empty and
  the filename lookup table is empty.
\<close>

theorem ClearResult_idempotent:
  "ClearResult (ClearResult g) = ClearResult g
   \<and> node (g_result (ClearResult g)) = None
   \<and> files (g_result (ClearResult g)) = []
   \<and> g_filenameLookup (ClearResult g) = Map.empty
   \<and> node (g_result (ClearResult (ClearResult g))) = None
   \<and> files (g_result (ClearResult (ClearResult g))) = []
   \<and> g_filenameLookup (ClearResult (ClearResult g)) = Map.empty"
  by (simp add: ClearResult_def)

section \<open>The file table\<close>

lemma table_inv_ClearResult: "table_inv (ClearResult g)"
  by (simp add: table_inv_def ClearResult_def)

lemma table_inv_bound:
  "table_inv g \<Longrightarrow> g_filenameLookup g h = Some i \<Longrightarrow> i < length (files (g_result g))"
proof -
  assume a: "table_inv g" and b: "g_filenameLookup g h = Some i"
  from b have "i \<in> the ` g_filenameLookup g ` dom (g_filenameLookup g)"
    by force
  with a show ?thesis by (simp add: table_inv_def)
qed

lemma table_inv_card:
  "table_inv g \<Longrightarrow> card (dom (g_filenameLookup g)) = length (files (g_result g))"
proof -
  assume a: "table_inv g"
  let ?m = "g_filenameLookup g"
  have "inj_on (\<lambda>h. the (?m h)) (dom ?m)"
  proof (rule inj_onI)
    fix x y assume x: "x \<in> dom ?m" and y: "y \<in> dom ?m" and e: "the (?m x) = the (?m y)"
    from x y e have "?m x = ?m y" by auto
    moreover have "inj_on ?m (dom ?m)" using a by (simp add: table_inv_def)
    ultimately show "x = y" using x y by (meson inj_onD)
  qed
  then have "card ((\<lambda>h. the (?m h)) ` dom ?m) = card (dom ?m)"
    by (rule card_image)
  moreover have "(\<lambda>h. the (?m h)) ` dom ?m = {..< length (files (g_result g))}"
    using a by (simp add: table_inv_def image_image)
  ultimately show ?thesis by simp
qed

lemma Add_seen:
  "g_filenameLookup g (getHashValue fileId) = Some i \<Longrightarrow> AddFileToDictionary fileId filename g = (i, g)"
  by (simp add: AddFileToDictionary_def Let_def)

lemma Add_new:
  "g_filenameLookup g (getHashValue fileId) = None \<Longrightarrow>
   AddFileToDictionary fileId filename g =
     (length (files (g_result g)),
      g\<lparr>g_filenameLookup := (g_filenameLookup g)(getHashValue fileId \<mapsto> length (files (g_result g))),
        g_result := (g_result g)\<lparr>files := files (g_result g) @ [filename]\<rparr>\<rparr>)"
  by (simp add: AddFileToDictionary_def Let_def)

lemma Add_inv:
  assumes "table_inv g" and "AddFileToDictionary fileId filename g = (i, g1)"
  shows "table_inv g1"
proof (cases "g_filenameLookup g (getHashValue fileId)")
  case (Some j)
  with assms show ?thesis by (simp add: Add_seen)
next
  case None
  let ?m = "g_filenameLookup g" and ?h = "getHashValue fileId" and ?n = "length (files (g_result g))"
  from None assms(2) have g1: "g_filenameLookup g1 = ?m(?h \<mapsto> ?n)"
    "files (g_result g1) = files (g_result g) @ [filename]"
    by (auto simp: Add_new)
  have nd: "?h \<notin> dom ?m" using None by auto
  have fin: "finite (dom (?m(?h \<mapsto> ?n)))" using assms(1) by (simp add: table_inv_def)
  have bound: "\<And>k j. ?m k = Some j \<Longrightarrow> j < ?n" using assms(1) table_inv_bound by blast
  have inj: "inj_on (?m(?h \<mapsto> ?n)) (dom (?m(?h \<mapsto> ?n)))"
  proof (rule inj_onI)
    fix x y
    assume x: "x \<in> dom (?m(?h \<mapsto> ?n))" and y: "y \<in> dom (?m(?h \<mapsto> ?n))"
      and e: "(?m(?h \<mapsto> ?n)) x = (?m(?h \<mapsto> ?n)) y"
    have old: "inj_on ?m (dom ?m)" using assms(1) by (simp add: table_inv_def)
    show "x = y"
    proof (cases "x = ?h")
      case True
      show ?thesis
      proof (rule ccontr)
        assume "x \<noteq> y"
        with True e have "?m y = Some ?n" by (simp split: if_splits)
        from bound[OF this] show False by simp
      qed
    next
      case False
      show ?thesis
      proof (cases "y = ?h")
        case True
        with False e have "?m x = Some ?n" by (simp split: if_splits)
        from bound[OF this] show ?thesis by simp
      next
        case yF: False
        with False x y e have "x \<in> dom ?m" "y \<in> dom ?m" "?m x = ?m y" by auto
        with old show ?thesis by (meson inj_onD)
      qed
    qed
  qed
  have "the ` (?m(?h \<mapsto> ?n)) ` dom (?m(?h \<mapsto> ?n)) = insert ?n (the ` ?m ` dom ?m)"
    using nd by (auto simp: image_iff)
  also have "\<dots> = {..< Suc ?n}" using assms(1) by (auto simp: table_inv_def)
  finally show ?thesis using fin inj g1 by (simp add: table_inv_def)
qed

lemma Add_lookup:
  "AddFileToDictionary fileId filename g = (i, g1) \<Longrightarrow>
   g_filenameLookup g1 (getHashValue fileId) = Some i
   \<and> g_filenameLookup g \<subseteq>\<^sub>m g_filenameLookup g1
   \<and> dom (g_filenameLookup g1) = insert (getHashValue fileId) (dom (g_filenameLookup g))
   \<and> (\<exists>ys. files (g_result g1) = files (g_result g) @ ys)"
  by (cases "g_filenameLookup g (getHashValue fileId)")
     (auto simp: Add_seen Add_new map_le_def)

lemma Add_fresh:
  "AddFileToDictionary fileId filename g = (i, g1) \<Longrightarrow> getHashValue fileId \<notin> dom (g_filenameLookup g) \<Longrightarrow>
   i = length (files (g_result g)) \<and> files (g_result g1) = files (g_result g) @ [filename]"
  by (cases "g_filenameLookup g (getHashValue fileId)") (auto simp: Add_new)

lemma intern_all_run:
  "table_inv g \<Longrightarrow> intern_all cs g = (idxs, g') \<Longrightarrow>
     table_inv g' \<and> length idxs = length cs
     \<and> (\<forall>j<length cs. g_filenameLookup g' (getHashValue (fst (cs ! j))) = Some (idxs ! j))
     \<and> g_filenameLookup g \<subseteq>\<^sub>m g_filenameLookup g'
     \<and> dom (g_filenameLookup g') = dom (g_filenameLookup g) \<union> getHashValue ` fst ` set cs
     \<and> (\<exists>ys. files (g_result g') = files (g_result g) @ ys)
     \<and> (\<forall>j<length cs. getHashValue (fst (cs ! j)) \<notin> dom (g_filenameLookup g)
            \<and> (\<forall>k<j. getHashValue (fst (cs ! k)) \<noteq> getHashValue (fst (cs ! j)))
          \<longrightarrow> files (g_result g') ! (idxs ! j) = snd (cs ! j))"
proof (induction cs arbitrary: g idxs g')
  case Nil
  then show ?case by simp
next
  case (Cons c cs)
  obtain i g1 where a: "AddFileToDictionary (fst c) (snd c) g = (i, g1)" by force
  obtain ixs g2 where r: "intern_all cs g1 = (ixs, g2)" by force
  from Cons.prems(2) a r have eq: "idxs = i # ixs" "g' = g2" by auto
  have inv1: "table_inv g1" using Add_inv[OF Cons.prems(1) a] .
  note IH = Cons.IH[OF inv1 r]
  note A = Add_lookup[OF a]
  have le: "g_filenameLookup g \<subseteq>\<^sub>m g_filenameLookup g2"
    using A IH map_le_trans by blast
  have l0: "g_filenameLookup g2 (getHashValue (fst c)) = Some i"
    using A IH by (metis domI map_le_def)
  have lk: "\<forall>j<length (c # cs). g_filenameLookup g2 (getHashValue (fst ((c # cs) ! j))) = Some ((i # ixs) ! j)"
    using l0 IH by (auto simp: nth_Cons split: nat.splits)
  have dm: "dom (g_filenameLookup g2) = dom (g_filenameLookup g) \<union> getHashValue ` fst ` set (c # cs)"
    using A IH by auto
  have pre: "\<exists>ys. files (g_result g2) = files (g_result g) @ ys"
    using A IH by auto
  have fn: "\<forall>j<length (c # cs). getHashValue (fst ((c # cs) ! j)) \<notin> dom (g_filenameLookup g)
            \<and> (\<forall>k<j. getHashValue (fst ((c # cs) ! k)) \<noteq> getHashValue (fst ((c # cs) ! j)))
          \<longrightarrow> files (g_result g2) ! ((i # ixs) ! j) = snd ((c # cs) ! j)"
  proof (intro allI impI)
    fix j assume j: "j < length (c # cs)"
      and h: "getHashValue (fst ((c # cs) ! j)) \<notin> dom (g_filenameLookup g)
            \<and> (\<forall>k<j. getHashValue (fst ((c # cs) ! k)) \<noteq> getHashValue (fst ((c # cs) ! j)))"
    show "files (g_result g2) ! ((i # ixs) ! j) = snd ((c # cs) ! j)"
    proof (cases j)
      case 0
      with h have "getHashValue (fst c) \<notin> dom (g_filenameLookup g)" by simp
      from Add_fresh[OF a this] have "i = length (files (g_result g))"
        "files (g_result g1) = files (g_result g) @ [snd c]" by auto
      moreover obtain ys where "files (g_result g2) = files (g_result g1) @ ys" using IH by blast
      ultimately show ?thesis using 0 by (simp add: nth_append)
    next
      case (Suc j')
      with j have j': "j' < length cs" by simp
      from h Suc have "getHashValue (fst (cs ! j')) \<noteq> getHashValue (fst c)"
        by (metis nth_Cons_0 nth_Cons_Suc zero_less_Suc)
      moreover from h Suc have "getHashValue (fst (cs ! j')) \<notin> dom (g_filenameLookup g)" by simp
      ultimately have nd: "getHashValue (fst (cs ! j')) \<notin> dom (g_filenameLookup g1)"
        using A by simp
      have "\<forall>k<j'. getHashValue (fst (cs ! k)) \<noteq> getHashValue (fst (cs ! j'))"
      proof (intro allI impI)
        fix k assume "k < j'"
        then have "Suc k < j" using Suc by simp
        with h have "getHashValue (fst ((c # cs) ! Suc k)) \<noteq> getHashValue (fst ((c # cs) ! j))" by blast
        then show "getHashValue (fst (cs ! k)) \<noteq> getHashValue (fst (cs ! j'))" using Suc by simp
      qed
      with nd j' IH have "files (g_result g2) ! (ixs ! j') = snd (cs ! j')" by blast
      then show ?thesis using Suc by simp
    qed
  qed
  show ?case unfolding eq using IH le lk dm pre fn by simp
qed


text \<open>
  C8. \<open>AddFileToDictionary\<close> returns the index stored for the file identity when it
  was interned before, leaving the state alone, and otherwise appends the filename
  and returns the new index. Consequently, over any sequence of intern calls that
  starts from the cleared state, two calls get the same index exactly when their
  file identities agree, every returned index points into the file table, the entry
  holds the filename of the identity's first call, and the table has one entry per
  distinct identity.
\<close>

theorem AddFileToDictionary_intern:
  "(g_filenameLookup g (getHashValue fileId) = Some i \<longrightarrow>
      AddFileToDictionary fileId filename g = (i, g))
   \<and> (g_filenameLookup g (getHashValue fileId) = None \<longrightarrow>
      AddFileToDictionary fileId filename g =
        (length (files (g_result g)),
         g\<lparr>g_filenameLookup :=
             (g_filenameLookup g)(getHashValue fileId \<mapsto> length (files (g_result g))),
           g_result := (g_result g)\<lparr>files := files (g_result g) @ [filename]\<rparr>\<rparr>))
   \<and> (intern_all cs (ClearResult g0) = (idxs, g') \<longrightarrow>
        length idxs = length cs
      \<and> (\<forall>a<length cs. \<forall>b<length cs.
            (idxs ! a = idxs ! b) =
            (getHashValue (fst (cs ! a)) = getHashValue (fst (cs ! b))))
      \<and> (\<forall>b<length cs. idxs ! b < length (files (g_result g')))
      \<and> (\<forall>b<length cs.
            (\<forall>a<b. getHashValue (fst (cs ! a)) \<noteq> getHashValue (fst (cs ! b))) \<longrightarrow>
            files (g_result g') ! (idxs ! b) = snd (cs ! b))
      \<and> length (files (g_result g')) = card (getHashValue ` fst ` set cs))"
proof (intro conjI impI)
  assume "g_filenameLookup g (getHashValue fileId) = Some i"
  then show "AddFileToDictionary fileId filename g = (i, g)" by (rule Add_seen)
next
  assume "g_filenameLookup g (getHashValue fileId) = None"
  then show "AddFileToDictionary fileId filename g =
        (length (files (g_result g)),
         g\<lparr>g_filenameLookup :=
             (g_filenameLookup g)(getHashValue fileId \<mapsto> length (files (g_result g))),
           g_result := (g_result g)\<lparr>files := files (g_result g) @ [filename]\<rparr>\<rparr>)"
    by (rule Add_new)
next
  assume r: "intern_all cs (ClearResult g0) = (idxs, g')"
  note R = intern_all_run[OF table_inv_ClearResult r]
  have e: "dom (g_filenameLookup (ClearResult g0)) = {}" by (simp add: ClearResult_def)
  have inv: "table_inv g'" using R by blast
  have lk: "\<And>j. j < length cs \<Longrightarrow> g_filenameLookup g' (getHashValue (fst (cs ! j))) = Some (idxs ! j)"
    using R by blast
  show "length idxs = length cs" using R by blast
  show "\<forall>a<length cs. \<forall>b<length cs.
            (idxs ! a = idxs ! b) =
            (getHashValue (fst (cs ! a)) = getHashValue (fst (cs ! b)))"
  proof (intro allI impI)
    fix a b assume a: "a < length cs" and b: "b < length cs"
    have inj: "inj_on (g_filenameLookup g') (dom (g_filenameLookup g'))"
      using inv by (simp add: table_inv_def)
    show "(idxs ! a = idxs ! b) = (getHashValue (fst (cs ! a)) = getHashValue (fst (cs ! b)))"
    proof
      assume "idxs ! a = idxs ! b"
      then have "g_filenameLookup g' (getHashValue (fst (cs ! a)))
               = g_filenameLookup g' (getHashValue (fst (cs ! b)))"
        using lk[OF a] lk[OF b] by simp
      moreover have "getHashValue (fst (cs ! a)) \<in> dom (g_filenameLookup g')"
        "getHashValue (fst (cs ! b)) \<in> dom (g_filenameLookup g')"
        using lk[OF a] lk[OF b] by auto
      ultimately show "getHashValue (fst (cs ! a)) = getHashValue (fst (cs ! b))"
        using inj by (meson inj_onD)
    next
      assume "getHashValue (fst (cs ! a)) = getHashValue (fst (cs ! b))"
      then show "idxs ! a = idxs ! b" using lk[OF a] lk[OF b] by simp
    qed
  qed
  show "\<forall>b<length cs. idxs ! b < length (files (g_result g'))"
    using lk table_inv_bound[OF inv] by blast
  show "\<forall>b<length cs.
            (\<forall>a<b. getHashValue (fst (cs ! a)) \<noteq> getHashValue (fst (cs ! b))) \<longrightarrow>
            files (g_result g') ! (idxs ! b) = snd (cs ! b)"
    using R e by simp
  have "dom (g_filenameLookup g') = getHashValue ` fst ` set cs" using R e by simp
  then show "length (files (g_result g')) = card (getHashValue ` fst ` set cs)"
    using table_inv_card[OF inv] by simp
qed

theorem AddFileToDictionary_intern_witness:
  "fst (intern_all [(FileID True 7, ''a.h''), (FileID True 9, ''b.h''), (FileID True 7, ''a.h'')]
         (ClearResult G0)) = [0, 1, 0]
   \<and> files (g_result (snd (intern_all
         [(FileID True 7, ''a.h''), (FileID True 9, ''b.h''), (FileID True 7, ''a.h'')]
         (ClearResult G0)))) = [''a.h'', ''b.h'']
   \<and> length (files (g_result (snd (intern_all
         [(FileID True 7, ''a.h''), (FileID True 9, ''b.h''), (FileID True 7, ''a.h'')]
         (ClearResult G0)))))
       = card (getHashValue ` fst ` set
         [(FileID True 7, ''a.h''), (FileID True 9, ''b.h''), (FileID True 7, ''a.h'')])"
proof -
  let ?cs = "[(FileID True 7, ''a.h''), (FileID True 9, ''b.h''), (FileID True 7, ''a.h'')]"
  let ?r = "intern_all ?cs (ClearResult G0)"
  have r: "?r = (fst ?r, snd ?r)" by (rule prod.collapse [symmetric])
  have i: "fst ?r = [0, 1, 0]"
    by (simp add: G0_def ClearResult_def AddFileToDictionary_def)
  have f: "files (g_result (snd ?r)) = [''a.h'', ''b.h'']"
    by (simp add: G0_def ClearResult_def AddFileToDictionary_def)
  have c: "length (files (g_result (snd ?r))) = card (getHashValue ` fst ` set ?cs)"
    using mp [OF conjunct2 [OF conjunct2 [OF AddFileToDictionary_intern]] r] by blast
  from i f c show ?thesis by (intro conjI)
qed



section \<open>The structure of a built node\<close>

lemmas example_defs =
  Init_def at_def SM_def record_info_def int_field_def bit_field_def record_field_def
  Itanium_def Microsoft32_def plain_layout_def G0_def
  declA_def declB_def ctxB_def declQ_def declP_def declR_def ctxR_def
  declV_def declM_def ctxM_def declW_def declX_def declY_def ctxY_def

lemmas build_defs =
  new_Node_def update_def push_back_def pointer_Node_def simple_Node_def vtorDisp_Node_def
  Bitfield_Node_def stable_sort_def nvbase_body_def field_body_def vbase_body_def
  RetrieveLocation_def AddFileToDictionary_def static_cast_int_def
  toCharUnitsFromBits_def toBits_def enumerate_eq_zip Let_def


lemma runR: "\<not> isl (ComputeStruct Init ctxR declR True G0)"
  by (simp add: example_defs build_defs)

lemma runM: "\<not> isl (ComputeStruct Init ctxM declM True G0)"
  by (simp add: example_defs build_defs)

lemma runY: "map (align \<circ> info) (children (fst (projr (ComputeStruct Init ctxY declY True G0)))) = [16, 16]"
  by (simp add: example_defs build_defs)

lemma for_each_emit:
  assumes step: "\<And>x n g n' g'. x \<in> set xs \<Longrightarrow> body x (n, g) = Inr (n', g') \<Longrightarrow>
                   info n' = info n \<and> (\<exists>ys. children n' = children n @ ys)"
    and run: "for_each xs body (n, g) = Inr (n', g')"
  shows "info n' = info n
         \<and> (\<exists>yss. children n' = children n @ concat yss \<and> list_all2 (emits body) xs yss)"
  using assms
proof (induction xs arbitrary: n g)
  case Nil
  then show ?case by simp
next
  case (Cons x xs)
  from Cons.prems(2) obtain n1 g1 where b: "body x (n, g) = Inr (n1, g1)"
    and r: "for_each xs body (n1, g1) = Inr (n', g')"
    by (auto split: sum.splits)
  from Cons.prems(1)[OF _ b] obtain ys where i1: "info n1 = info n"
    and c1: "children n1 = children n @ ys" by auto
  have e: "emits body x ys" unfolding emits_def using b c1 by blast
  have "info n' = info n1
        \<and> (\<exists>yss. children n' = children n1 @ concat yss \<and> list_all2 (emits body) xs yss)"
    by (rule Cons.IH[OF _ r]) (rule Cons.prems(1), simp_all)
  then obtain yss where i2: "info n' = info n1"
    and c2: "children n' = children n1 @ concat yss" and l: "list_all2 (emits body) xs yss"
    by blast
  have "children n' = children n @ concat (ys # yss)" using c1 c2 by simp
  moreover have "list_all2 (emits body) (x # xs) (ys # yss)" using e l by simp
  ultimately show ?case using i1 i2 by metis
qed

lemma collect_nvbases_eq:
  "collect_nvbases bs acc = Inr xs \<Longrightarrow>
   xs = acc @ map getAsCXXRecordDecl_base (filter (\<lambda>base. \<not> isVirtual base) bs)"
proof (induction bs arbitrary: acc)
  case Nil
  then show ?case by simp
next
  case (Cons b bs)
  from Cons.prems have nd: "\<not> isDependentType_base b" by (simp split: if_splits)
  show ?case
  proof (cases "isVirtual b")
    case True
    with Cons.prems nd have "collect_nvbases bs acc = Inr xs" by simp
    from Cons.IH[OF this] True show ?thesis by simp
  next
    case False
    with Cons.prems nd have "collect_nvbases bs (acc @ [getAsCXXRecordDecl_base b]) = Inr xs" by simp
    from Cons.IH[OF this] False show ?thesis by simp
  qed
qed

lemma nvbase_body_step:
  assumes "nvbase_body f layout base (n, g) = Inr (n', g')"
  shows "\<exists>bn. f base False g = Inr (bn, g')
      \<and> n' = push_back n (update (\<lambda>i. i\<lparr>offset := getBaseClassOffset layout base,
                                        nature := (if Some base = getPrimaryBase layout
                                                   then NVPrimaryBase else NVBase)\<rparr>) bn)"
proof (cases "f base False g")
  case (Inl e)
  with assms show ?thesis by (simp add: nvbase_body_def)
next
  case (Inr r)
  with assms show ?thesis by (cases r) (simp add: nvbase_body_def)
qed

lemma vbase_body_step:
  assumes "vbase_body f init layout Base (n, g) = Inr (n', g')"
  shows "\<exists>vtorDisp vn. isVirtual Base
      \<and> getVBaseOffsetsMap layout (getAsCXXRecordDecl_base Base) = Some vtorDisp
      \<and> f (getAsCXXRecordDecl_base Base) False g = Inr (vn, g')
      \<and> n' = push_back
                (if hasVtorDisp vtorDisp
                 then push_back n
                        (vtorDisp_Node init (getVBaseClassOffset layout (getAsCXXRecordDecl_base Base)))
                 else n)
                (update (\<lambda>i. i\<lparr>offset := getVBaseClassOffset layout (getAsCXXRecordDecl_base Base),
                               nature := (if Some (getAsCXXRecordDecl_base Base) = getPrimaryBase layout
                                          then VPrimaryBase else VBase)\<rparr>) vn)"
proof -
  let ?vb = "getAsCXXRecordDecl_base Base"
  have v: "isVirtual Base"
    using assms by (cases "isVirtual Base") (simp_all add: vbase_body_def)
  obtain vt where m: "getVBaseOffsetsMap layout ?vb = Some vt"
    using assms v by (cases "getVBaseOffsetsMap layout ?vb") (simp_all add: vbase_body_def Let_def)
  show ?thesis
  proof (cases "f ?vb False g")
    case (Inl e)
    with assms v m show ?thesis by (simp add: vbase_body_def Let_def)
  next
    case (Inr r)
    with assms v m show ?thesis by (cases r) (simp add: vbase_body_def Let_def)
  qed
qed

lemma field_body_record:
  assumes "getAsCXXRecordDecl field = Some d"
    and "field_body f init context layout (fieldNo, field) (n, g) = Inr (n', g')"
  shows "\<exists>fn g1 loc.
           f d True g = Inr (fn, g1)
         \<and> RetrieveLocation (fieldLocation (info fn)) context
              (getLocation_field (field_info field)) g1 = (loc, g')
         \<and> n' = push_back n
                  (update (\<lambda>i. i\<lparr>fieldLocation := loc\<rparr>)
                     (update (\<lambda>i. i\<lparr>name := getNameAsString (field_info field),
                                    type := getAsString (field_info field),
                                    offset := toCharUnitsFromBits context (getFieldOffset layout fieldNo),
                                    nature := ComplexField\<rparr>) fn))"
proof (cases "f d True g")
  case (Inl e)
  with assms show ?thesis by (simp add: field_body_def Let_def)
next
  case (Inr r)
  obtain fn g1 where r: "r = (fn, g1)" by (cases r)
  obtain loc g2 where l: "RetrieveLocation (fieldLocation (info fn)) context
              (getLocation_field (field_info field)) g1 = (loc, g2)" by force
  have fl: "fieldLocation (info (update (\<lambda>i. i\<lparr>name := getNameAsString (field_info field),
                                    type := getAsString (field_info field),
                                    offset := toCharUnitsFromBits context (getFieldOffset layout fieldNo),
                                    nature := ComplexField\<rparr>) fn)) = fieldLocation (info fn)"
    by (simp add: update_def)
  from assms Inr r l fl show ?thesis by (simp add: field_body_def Let_def)
qed

lemma field_body_bitfield:
  assumes "getAsCXXRecordDecl field = None" and "isBitField (field_info field)"
  shows "field_body f init context layout (fieldNo, field) (n, g) =
           Inr (push_back n
                  (Bitfield_Node init context (field_info field) (getFieldOffset layout fieldNo)), g)"
  using assms by (simp add: field_body_def Let_def)

lemma field_body_simple:
  assumes "getAsCXXRecordDecl field = None" and "\<not> isBitField (field_info field)"
    and "RetrieveLocation (fieldLocation init) context
           (getLocation_field (field_info field)) g = (loc, g')"
  shows "field_body f init context layout (fieldNo, field) (n, g) =
           Inr (push_back n
                  (update (\<lambda>i. i\<lparr>fieldLocation := loc\<rparr>)
                     (simple_Node init context SimpleField (field_info field)
                        (toCharUnitsFromBits context (getFieldOffset layout fieldNo)))), g')"
proof -
  have "fieldLocation (info (simple_Node init context SimpleField (field_info field)
                        (toCharUnitsFromBits context (getFieldOffset layout fieldNo))))
        = fieldLocation init"
    by (simp add: simple_Node_def update_def new_Node_def)
  with assms show ?thesis by (simp add: field_body_def Let_def)
qed

lemma field_body_step:
  assumes "field_body f init context layout p (n, g) = Inr (n', g')"
  shows "\<exists>y. n' = push_back n y"
proof -
  obtain fieldNo field where p: "p = (fieldNo, field)" by (cases p)
  show ?thesis
  proof (cases "getAsCXXRecordDecl field")
    case (Some d)
    from field_body_record[OF Some assms[unfolded p]] show ?thesis by blast
  next
    case None
    show ?thesis
    proof (cases "isBitField (field_info field)")
      case True
      from assms[unfolded p] field_body_bitfield[OF None True] show ?thesis by auto
    next
      case False
      obtain loc g1 where "RetrieveLocation (fieldLocation init) context
           (getLocation_field (field_info field)) g = (loc, g1)" by force
      from field_body_simple[OF None False this] assms[unfolded p] show ?thesis by auto
    qed
  qed
qed

lemma push_back_simps [simp]:
  "info (push_back n y) = info n" "children (push_back n y) = children n @ [y]"
  by (simp_all add: push_back_def)

lemma update_simps [simp]:
  "info (update f n) = f (info n)" "children (update f n) = children n"
  by (simp_all add: update_def)

lemma new_Node_simps [simp]:
  "info (new_Node init) = init" "children (new_Node init) = []"
  by (simp_all add: new_Node_def)

lemma ComputeStruct_run:
  assumes run: "ComputeStruct init context d ivb g = Inr (n, g')"
  shows "\<exists>loc g1 nvss fss vss.
      RetrieveLocation (typeLocation init) context (getLocation (decl_info d)) g = (loc, g1)
    \<and> info n = init\<lparr>typeLocation := loc,
                    type := getQualifiedNameAsString (decl_info d),
                    size' := (if ivb then getSize (getASTRecordLayout context d)
                              else getNonVirtualSize (getASTRecordLayout context d)),
                    align := getAlignment (getASTRecordLayout context d)\<rparr>
    \<and> children n = vptr_nodes init context d @ concat nvss @ vbptr_nodes init context d
                   @ concat fss @ concat vss
    \<and> list_all2 (emits (nvbase_body (ComputeStruct init context) (getASTRecordLayout context d)))
         (stable_sort (getBaseClassOffset (getASTRecordLayout context d)) (nvbases_of d)) nvss
    \<and> list_all2 (emits (field_body (ComputeStruct init context) init context
                           (getASTRecordLayout context d)))
         (enumerate 0 (fields' d)) fss
    \<and> (if ivb
        then list_all2 (emits (vbase_body (ComputeStruct init context) init
                                 (getASTRecordLayout context d))) (vbases d) vss
        else vss = [])"
proof -
  obtain dinfo dbases dvbases dfields where d: "d = CXXRecordDecl dinfo dbases dvbases dfields"
    by (cases d)
  let ?layout = "getASTRecordLayout context d"
  obtain loc g1 where loc: "RetrieveLocation (typeLocation init) context (getLocation dinfo) g = (loc, g1)"
    by force
  define n0 where "n0 = update (\<lambda>n. n\<lparr>typeLocation := loc,
                              type := getQualifiedNameAsString dinfo,
                              size' := (if ivb then getSize ?layout else getNonVirtualSize ?layout),
                              align := getAlignment ?layout\<rparr>) (new_Node init)"
  define n1 where "n1 = (if isDynamicClass dinfo \<and> getPrimaryBase ?layout = None
                     \<and> \<not> isMicrosoft (getTargetInfo context)
                  then push_back n0 (pointer_Node init context VTablePtr 0)
                  else if hasOwnVFPtr ?layout
                  then push_back n0 (pointer_Node init context VFTablePtr 0)
                  else n0)"
  have n1: "info n1 = info n0" "children n1 = vptr_nodes init context d"
    by (auto simp: n1_def n0_def vptr_nodes_def d Let_def)
  let ?nvb = "nvbase_body (ComputeStruct init context) ?layout"
  let ?fb = "field_body (ComputeStruct init context) init context ?layout"
  let ?vbb = "vbase_body (ComputeStruct init context) init ?layout"
  define n3 where "n3 = (\<lambda>n2. if hasOwnVBPtr ?layout
                             then push_back n2
                                    (pointer_Node init context VBTablePtr (getVBPtrOffset ?layout))
                             else n2)"
  have unf: "ComputeStruct init context d ivb g =
     (case collect_nvbases dbases [] of
        Inl e \<Rightarrow> Inl e
      | Inr nvbases \<Rightarrow>
          (case for_each (stable_sort (getBaseClassOffset ?layout) nvbases) ?nvb (n1, g1) of
             Inl e \<Rightarrow> Inl e
           | Inr (n2, g2) \<Rightarrow>
               (case for_each (enumerate 0 dfields) ?fb (n3 n2, g2) of
                  Inl e \<Rightarrow> Inl e
                | Inr (n4, g4) \<Rightarrow>
                    if ivb then for_each dvbases ?vbb (n4, g4) else Inr (n4, g4))))"
    unfolding d n1_def n0_def n3_def
    by (simp only: ComputeStruct.simps Let_def new_Node_simps loc prod.case)
  from run obtain nvbases where c: "collect_nvbases dbases [] = Inr nvbases"
    unfolding unf by (cases "collect_nvbases dbases []") simp_all
  have nvb: "nvbases = nvbases_of d"
    using collect_nvbases_eq[OF c] by (simp add: nvbases_of_def d)
  from run c obtain n2 g2 where
    f1: "for_each (stable_sort (getBaseClassOffset ?layout) nvbases) ?nvb (n1, g1) = Inr (n2, g2)"
    unfolding unf
    by (cases "for_each (stable_sort (getBaseClassOffset ?layout) nvbases) ?nvb (n1, g1)") auto
  from run c f1 obtain n4 g4 where
    f2: "for_each (enumerate 0 dfields) ?fb (n3 n2, g2) = Inr (n4, g4)"
    unfolding unf
    by (cases "for_each (enumerate 0 dfields) ?fb (n3 n2, g2)") auto
  from run c f1 f2 have
    f3: "(if ivb then for_each dvbases ?vbb (n4, g4) else Inr (n4, g4)) = Inr (n, g')"
    unfolding unf by simp
  have e1: "info n2 = info n1 \<and> (\<exists>yss. children n2 = children n1 @ concat yss
               \<and> list_all2 (emits ?nvb) (stable_sort (getBaseClassOffset ?layout) nvbases) yss)"
    by (rule for_each_emit[OF _ f1]) (auto dest!: nvbase_body_step)
  then obtain nvss where i2: "info n2 = info n1" and c2: "children n2 = children n1 @ concat nvss"
    and l2: "list_all2 (emits ?nvb) (stable_sort (getBaseClassOffset ?layout) nvbases) nvss"
    by blast
  have n3: "info (n3 n2) = info n2" "children (n3 n2) = children n2 @ vbptr_nodes init context d"
    by (auto simp: n3_def vbptr_nodes_def Let_def)
  have e2: "info n4 = info (n3 n2) \<and> (\<exists>yss. children n4 = children (n3 n2) @ concat yss
               \<and> list_all2 (emits ?fb) (enumerate 0 dfields) yss)"
    by (rule for_each_emit[OF _ f2]) (auto dest!: field_body_step)
  then obtain fss where i4: "info n4 = info (n3 n2)" and c4: "children n4 = children (n3 n2) @ concat fss"
    and l4: "list_all2 (emits ?fb) (enumerate 0 dfields) fss"
    by blast
  have "\<exists>vss. info n = info n4 \<and> children n = children n4 @ concat vss
          \<and> (if ivb then list_all2 (emits ?vbb) dvbases vss else vss = [])"
  proof (cases ivb)
    case True
    with f3 have f: "for_each dvbases ?vbb (n4, g4) = Inr (n, g')" by simp
    have "info n = info n4 \<and> (\<exists>yss. children n = children n4 @ concat yss
               \<and> list_all2 (emits ?vbb) dvbases yss)"
      by (rule for_each_emit[OF _ f]) (auto dest!: vbase_body_step)
    with True show ?thesis by auto
  next
    case False
    with f3 show ?thesis by simp
  qed
  then obtain vss where i5: "info n = info n4" and c5: "children n = children n4 @ concat vss"
    and l5: "if ivb then list_all2 (emits ?vbb) dvbases vss else vss = []"
    by blast
  have inf: "info n = init\<lparr>typeLocation := loc,
                    type := getQualifiedNameAsString (decl_info d),
                    size' := (if ivb then getSize ?layout else getNonVirtualSize ?layout),
                    align := getAlignment ?layout\<rparr>"
    using i5 i4 n3 i2 n1 by (simp add: n0_def d)
  have ch: "children n = vptr_nodes init context d @ concat nvss @ vbptr_nodes init context d
                   @ concat fss @ concat vss"
    using c5 c4 n3 c2 n1 by simp
  have loc': "RetrieveLocation (typeLocation init) context (getLocation (decl_info d)) g = (loc, g1)"
    using loc by (simp add: d)
  have l4': "list_all2 (emits ?fb) (enumerate 0 (fields' d)) fss" using l4 by (simp add: d)
  have l5': "if ivb then list_all2 (emits ?vbb) (vbases d) vss else vss = []"
    using l5 by (cases ivb) (simp_all add: d)
  from loc' inf ch l2[unfolded nvb] l4' l5' show ?thesis by blast
qed

lemma emits_nvbase:
  assumes "emits (nvbase_body (ComputeStruct init context) layout) base ys"
  shows "\<exists>y. ys = [y] \<and> nvbase_child init context layout base y"
proof -
  from assms obtain n g n' g' where
    b: "nvbase_body (ComputeStruct init context) layout base (n, g) = Inr (n', g')"
    and c: "children n' = children n @ ys"
    unfolding emits_def by blast
  from nvbase_body_step[OF b] obtain bn where
    r: "ComputeStruct init context base False g = Inr (bn, g')"
    and n': "n' = push_back n (update (\<lambda>i. i\<lparr>offset := getBaseClassOffset layout base,
                                        nature := (if Some base = getPrimaryBase layout
                                                   then NVPrimaryBase else NVBase)\<rparr>) bn)"
    by blast
  from c n' have "ys = [update (\<lambda>i. i\<lparr>offset := getBaseClassOffset layout base,
                                        nature := (if Some base = getPrimaryBase layout
                                                   then NVPrimaryBase else NVBase)\<rparr>) bn]"
    by simp
  with r show ?thesis unfolding nvbase_child_def by blast
qed

lemma emits_vbase:
  assumes "emits (vbase_body (ComputeStruct init context) init layout) Base ys"
  shows "vbase_children init context layout Base ys"
proof -
  from assms obtain n g n' g' where
    b: "vbase_body (ComputeStruct init context) init layout Base (n, g) = Inr (n', g')"
    and c: "children n' = children n @ ys"
    unfolding emits_def by blast
  from vbase_body_step[OF b] obtain vt vn where
    m: "getVBaseOffsetsMap layout (getAsCXXRecordDecl_base Base) = Some vt"
    and r: "ComputeStruct init context (getAsCXXRecordDecl_base Base) False g = Inr (vn, g')"
    and n': "n' = push_back
                (if hasVtorDisp vt
                 then push_back n
                        (vtorDisp_Node init (getVBaseClassOffset layout (getAsCXXRecordDecl_base Base)))
                 else n)
                (update (\<lambda>i. i\<lparr>offset := getVBaseClassOffset layout (getAsCXXRecordDecl_base Base),
                               nature := (if Some (getAsCXXRecordDecl_base Base) = getPrimaryBase layout
                                          then VPrimaryBase else VBase)\<rparr>) vn)"
    by blast
  from c n' have "ys = (if hasVtorDisp vt
               then [vtorDisp_Node init (getVBaseClassOffset layout (getAsCXXRecordDecl_base Base))]
               else [])
            @ [update (\<lambda>n. n\<lparr>offset := getVBaseClassOffset layout (getAsCXXRecordDecl_base Base),
                              nature := (if Some (getAsCXXRecordDecl_base Base) = getPrimaryBase layout
                                         then VPrimaryBase else VBase)\<rparr>) vn]"
    by (cases "hasVtorDisp vt") simp_all
  with m r show ?thesis unfolding vbase_children_def by blast
qed

lemma emits_field:
  assumes "emits (field_body (ComputeStruct init context) init context layout) p ys"
  shows "\<exists>y. ys = [y] \<and> field_child init context layout p y"
proof -
  obtain fieldNo field where p: "p = (fieldNo, field)" by (cases p)
  from assms obtain n g n' g' where
    b: "field_body (ComputeStruct init context) init context layout (fieldNo, field) (n, g)
        = Inr (n', g')"
    and c: "children n' = children n @ ys"
    unfolding emits_def p by blast
  show ?thesis
  proof (cases "getAsCXXRecordDecl field")
    case (Some d)
    from field_body_record[OF Some b] obtain fn g1 loc where
      r: "ComputeStruct init context d True g = Inr (fn, g1)"
      and l: "RetrieveLocation (fieldLocation (info fn)) context
              (getLocation_field (field_info field)) g1 = (loc, g')"
      and n': "n' = push_back n
                  (update (\<lambda>i. i\<lparr>fieldLocation := loc\<rparr>)
                     (update (\<lambda>i. i\<lparr>name := getNameAsString (field_info field),
                                    type := getAsString (field_info field),
                                    offset := toCharUnitsFromBits context (getFieldOffset layout fieldNo),
                                    nature := ComplexField\<rparr>) fn))"
      by blast
    from c n' have "ys = [update (\<lambda>i. i\<lparr>fieldLocation := loc\<rparr>)
                     (update (\<lambda>i. i\<lparr>name := getNameAsString (field_info field),
                                    type := getAsString (field_info field),
                                    offset := toCharUnitsFromBits context (getFieldOffset layout fieldNo),
                                    nature := ComplexField\<rparr>) fn)]"
      by simp
    with r l Some show ?thesis unfolding field_child_def p by (simp del: update_simps) blast
  next
    case None
    show ?thesis
    proof (cases "isBitField (field_info field)")
      case True
      from b c field_body_bitfield[OF None True, of "ComputeStruct init context" init "context" layout fieldNo n g]
      show ?thesis using None True unfolding field_child_def p by auto
    next
      case False
      obtain loc g1 where l: "RetrieveLocation (fieldLocation init) context
           (getLocation_field (field_info field)) g = (loc, g1)" by force
      from field_body_simple[OF None False l, of "ComputeStruct init context" layout fieldNo n] b c
      have "ys = [update (\<lambda>i. i\<lparr>fieldLocation := loc\<rparr>)
                     (simple_Node init context SimpleField (field_info field)
                        (toCharUnitsFromBits context (getFieldOffset layout fieldNo)))]"
        by auto
      with l show ?thesis using None False unfolding field_child_def p by auto
    qed
  qed
qed

lemma list_all2_singletons:
  assumes "list_all2 R xs yss" and "\<And>x ys. x \<in> set xs \<Longrightarrow> R x ys \<Longrightarrow> \<exists>y. ys = [y] \<and> Q x y"
  shows "\<exists>ys. concat yss = ys \<and> list_all2 Q xs ys"
  using assms
proof (induction xs yss rule: list_all2_induct)
  case Nil
  then show ?case by simp
next
  case (Cons x xs ys yss)
  from Cons.prems[of x ys] Cons.hyps(1) obtain y where y: "ys = [y]" "Q x y" by auto
  from Cons.IH Cons.prems have "list_all2 Q xs (concat yss)" by auto
  with y show ?case by simp
qed

text \<open>The children of a built node, segment by segment.\<close>

lemma ComputeStruct_children:
  assumes run: "ComputeStruct init context d ivb g = Inr (n, g')"
  shows "\<exists>nvs fs vss.
      children n = vptr_nodes init context d @ nvs @ vbptr_nodes init context d @ fs @ concat vss
    \<and> list_all2 (nvbase_child init context (getASTRecordLayout context d))
         (stable_sort (getBaseClassOffset (getASTRecordLayout context d)) (nvbases_of d)) nvs
    \<and> list_all2 (field_child init context (getASTRecordLayout context d))
         (enumerate 0 (fields' d)) fs
    \<and> (if ivb
        then list_all2 (vbase_children init context (getASTRecordLayout context d)) (vbases d) vss
        else vss = [])"
proof -
  let ?layout = "getASTRecordLayout context d"
  from ComputeStruct_run[OF run] obtain nvss fss vss where
    ch: "children n = vptr_nodes init context d @ concat nvss @ vbptr_nodes init context d
                   @ concat fss @ concat vss"
    and l1: "list_all2 (emits (nvbase_body (ComputeStruct init context) ?layout))
         (stable_sort (getBaseClassOffset ?layout) (nvbases_of d)) nvss"
    and l2: "list_all2 (emits (field_body (ComputeStruct init context) init context ?layout))
         (enumerate 0 (fields' d)) fss"
    and l3: "if ivb
        then list_all2 (emits (vbase_body (ComputeStruct init context) init ?layout)) (vbases d) vss
        else vss = []"
    by blast
  from list_all2_singletons[OF l1, of "nvbase_child init context ?layout"] emits_nvbase
  have a: "list_all2 (nvbase_child init context ?layout)
         (stable_sort (getBaseClassOffset ?layout) (nvbases_of d)) (concat nvss)" by blast
  from list_all2_singletons[OF l2, of "field_child init context ?layout"] emits_field
  have b: "list_all2 (field_child init context ?layout) (enumerate 0 (fields' d)) (concat fss)"
    by blast
  have c: "if ivb
        then list_all2 (vbase_children init context ?layout) (vbases d) vss
        else vss = []"
  proof (cases ivb)
    case True
    with l3 have "list_all2 (emits (vbase_body (ComputeStruct init context) init ?layout)) (vbases d) vss"
      by simp
    then have "list_all2 (vbase_children init context ?layout) (vbases d) vss"
      by (rule list_all2_mono) (rule emits_vbase)
    with True show ?thesis by simp
  next
    case False
    with l3 show ?thesis by simp
  qed
  from ch a b c show ?thesis by blast
qed

lemma list_all2_right:
  "list_all2 R xs ys \<Longrightarrow> y \<in> set ys \<Longrightarrow> \<exists>x\<in>set xs. R x y"
  by (induction xs ys rule: list_all2_induct) auto

lemma pointer_Node_info [simp]:
  "nature (info (pointer_Node init context cat off)) = cat"
  "offset (info (pointer_Node init context cat off)) = off"
  "size' (info (pointer_Node init context cat off))
     = toCharUnitsFromBits context (getPointerWidth (getTargetInfo context))"
  "align (info (pointer_Node init context cat off))
     = toCharUnitsFromBits context (getPointerAlign (getTargetInfo context))"
  "children (pointer_Node init context cat off) = []"
  by (simp_all add: pointer_Node_def)

lemma vtorDisp_Node_info [simp]:
  "nature (info (vtorDisp_Node init off)) = VtorDisp"
  "offset (info (vtorDisp_Node init off)) = off - 4"
  "size' (info (vtorDisp_Node init off)) = 4"
  "align (info (vtorDisp_Node init off)) = 4"
  "children (vtorDisp_Node init off) = []"
  by (simp_all add: vtorDisp_Node_def)

lemma simple_Node_info [simp]:
  "nature (info (simple_Node init context cat field off)) = cat"
  "offset (info (simple_Node init context cat field off)) = off"
  "size' (info (simple_Node init context cat field off))
     = toCharUnitsFromBits context (Width (getTypeInfo field))"
  "align (info (simple_Node init context cat field off))
     = toCharUnitsFromBits context (Align (getTypeInfo field))"
  "name (info (simple_Node init context cat field off)) = getNameAsString field"
  "type (info (simple_Node init context cat field off)) = getAsString field"
  "fieldLocation (info (simple_Node init context cat field off)) = fieldLocation init"
  "typeLocation (info (simple_Node init context cat field off)) = typeLocation init"
  "children (simple_Node init context cat field off) = []"
  by (simp_all add: simple_Node_def)

lemma Bitfield_Node_info [simp]:
  "nature (info (Bitfield_Node init context field bits)) = Bitfield"
  "offset (info (Bitfield_Node init context field bits)) = toCharUnitsFromBits context bits"
  "size' (info (Bitfield_Node init context field bits))
     = toCharUnitsFromBits context (Width (getTypeInfo field))"
  "align (info (Bitfield_Node init context field bits))
     = toCharUnitsFromBits context (Align (getTypeInfo field))"
  "fieldLocation (info (Bitfield_Node init context field bits)) = fieldLocation init"
  "children (Bitfield_Node init context field bits)
     = [update (\<lambda>n. n\<lparr>offset := int bits - toBits context (toCharUnitsFromBits context bits),
                      size' := int (getBitWidthValue field)\<rparr>) (new_Node init)]"
  by (simp_all add: Bitfield_Node_def Let_def)

lemma nvbase_child_info:
  assumes "nvbase_child init context layout base y"
  shows "nature (info y) = (if Some base = getPrimaryBase layout then NVPrimaryBase else NVBase)"
    and "offset (info y) = getBaseClassOffset layout base"
    and "size' (info y) = getNonVirtualSize (getASTRecordLayout context base)"
    and "align (info y) = getAlignment (getASTRecordLayout context base)"
proof -
  from assms obtain g bn g' where r: "ComputeStruct init context base False g = Inr (bn, g')"
    and y: "y = update (\<lambda>n. n\<lparr>offset := getBaseClassOffset layout base,
                               nature := (if Some base = getPrimaryBase layout
                                          then NVPrimaryBase else NVBase)\<rparr>) bn"
    unfolding nvbase_child_def by blast
  from ComputeStruct_run[OF r] obtain loc where
    i: "info bn = init\<lparr>typeLocation := loc,
                    type := getQualifiedNameAsString (decl_info base),
                    size' := (if False then getSize (getASTRecordLayout context base)
                              else getNonVirtualSize (getASTRecordLayout context base)),
                    align := getAlignment (getASTRecordLayout context base)\<rparr>"
    by blast
  show "nature (info y) = (if Some base = getPrimaryBase layout then NVPrimaryBase else NVBase)"
    by (simp add: y)
  show "offset (info y) = getBaseClassOffset layout base" by (simp add: y)
  show "size' (info y) = getNonVirtualSize (getASTRecordLayout context base)" by (simp add: y i)
  show "align (info y) = getAlignment (getASTRecordLayout context base)" by (simp add: y i)
qed

lemma field_child_nature:
  assumes "field_child init context layout p y"
  shows "nature (info y) =
           (if getAsCXXRecordDecl (snd p) \<noteq> None then ComplexField
            else if isBitField (field_info (snd p)) then Bitfield else SimpleField)"
proof (cases "getAsCXXRecordDecl (snd p)")
  case None
  with assms show ?thesis
    unfolding field_child_def by (cases "isBitField (field_info (snd p))") auto
next
  case (Some d)
  with assms show ?thesis unfolding field_child_def by auto
qed

lemma vbase_children_nature:
  assumes "vbase_children init context layout Base ys" and "y \<in> set ys"
  shows "nature (info y) = VtorDisp \<or> nature (info y) = VBase \<or> nature (info y) = VPrimaryBase"
proof -
  from assms(1) obtain vt g vn g' where
    "getVBaseOffsetsMap layout (getAsCXXRecordDecl_base Base) = Some vt"
    and "ComputeStruct init context (getAsCXXRecordDecl_base Base) False g = Inr (vn, g')"
    and ys: "ys = (if hasVtorDisp vt
               then [vtorDisp_Node init (getVBaseClassOffset layout (getAsCXXRecordDecl_base Base))]
               else [])
            @ [update (\<lambda>n. n\<lparr>offset := getVBaseClassOffset layout (getAsCXXRecordDecl_base Base),
                              nature := (if Some (getAsCXXRecordDecl_base Base) = getPrimaryBase layout
                                         then VPrimaryBase else VBase)\<rparr>) vn]"
    unfolding vbase_children_def by blast
  from assms(2) show ?thesis unfolding ys by (auto split: if_splits)
qed

text \<open>Where a child of a built node comes from.\<close>

lemma ComputeStruct_child_cases:
  assumes run: "ComputeStruct init context d ivb g = Inr (n, g')" and c: "c \<in> set (children n)"
  shows "c \<in> set (vptr_nodes init context d)
       \<or> (\<exists>base. nvbase_child init context (getASTRecordLayout context d) base c)
       \<or> c \<in> set (vbptr_nodes init context d)
       \<or> (\<exists>p. field_child init context (getASTRecordLayout context d) p c)
       \<or> (ivb \<and> (\<exists>Base ys. vbase_children init context (getASTRecordLayout context d) Base ys
                   \<and> c \<in> set ys))"
proof -
  let ?layout = "getASTRecordLayout context d"
  from ComputeStruct_children[OF run] obtain nvs fs vss where
    ch: "children n = vptr_nodes init context d @ nvs @ vbptr_nodes init context d @ fs @ concat vss"
    and l1: "list_all2 (nvbase_child init context ?layout)
         (stable_sort (getBaseClassOffset ?layout) (nvbases_of d)) nvs"
    and l2: "list_all2 (field_child init context ?layout) (enumerate 0 (fields' d)) fs"
    and l3: "if ivb then list_all2 (vbase_children init context ?layout) (vbases d) vss
             else vss = []"
    by blast
  from c ch consider "c \<in> set (vptr_nodes init context d)" | "c \<in> set nvs"
    | "c \<in> set (vbptr_nodes init context d)" | "c \<in> set fs" | "c \<in> set (concat vss)"
    by auto
  then show ?thesis
  proof cases
    case 1
    then show ?thesis by simp
  next
    case 2
    from list_all2_right[OF l1 2] show ?thesis by blast
  next
    case 3
    then show ?thesis by simp
  next
    case 4
    from list_all2_right[OF l2 4] show ?thesis by blast
  next
    case 5
    then obtain ys where ys: "ys \<in> set vss" "c \<in> set ys" by auto
    then have ivb: ivb using l3 by (cases ivb) auto
    with l3 have "list_all2 (vbase_children init context ?layout) (vbases d) vss" by simp
    from list_all2_right[OF this ys(1)] ys(2) ivb show ?thesis by blast
  qed
qed

lemma vptr_nodes_nature:
  "c \<in> set (vptr_nodes init context d) \<Longrightarrow>
   (nature (info c) = VTablePtr \<or> nature (info c) = VFTablePtr)
   \<and> c = pointer_Node init context (nature (info c)) 0"
  by (auto simp: vptr_nodes_def Let_def split: if_splits)

lemma vbptr_nodes_nature:
  "c \<in> set (vbptr_nodes init context d) \<Longrightarrow>
   nature (info c) = VBTablePtr \<and> hasOwnVBPtr (getASTRecordLayout context d)
   \<and> c = pointer_Node init context VBTablePtr (getVBPtrOffset (getASTRecordLayout context d))"
  by (auto simp: vbptr_nodes_def Let_def split: if_splits)

text \<open>The category of a child decides the segment it belongs to.\<close>

lemma ComputeStruct_child_vptr:
  assumes run: "ComputeStruct init context d ivb g = Inr (n, g')" and c: "c \<in> set (children n)"
    and nat: "nature (info c) = VTablePtr \<or> nature (info c) = VFTablePtr"
  shows "c \<in> set (vptr_nodes init context d)"
  using ComputeStruct_child_cases[OF run c] nat
  by (auto dest: nvbase_child_info(1) field_child_nature vbptr_nodes_nature vbase_children_nature
           split: if_splits)

lemma ComputeStruct_child_vbptr:
  assumes run: "ComputeStruct init context d ivb g = Inr (n, g')" and c: "c \<in> set (children n)"
    and nat: "nature (info c) = VBTablePtr"
  shows "c \<in> set (vbptr_nodes init context d)"
  using ComputeStruct_child_cases[OF run c] nat
  by (auto dest: nvbase_child_info(1) field_child_nature vptr_nodes_nature vbase_children_nature
           split: if_splits)

lemma ComputeStruct_segments:
  assumes run: "ComputeStruct init context d ivb g = Inr (n, g')"
  shows "\<exists>nvs fs vs.
      children n = vptr_nodes init context d @ nvs @ vbptr_nodes init context d @ fs @ vs
    \<and> list_all2 (nvbase_child init context (getASTRecordLayout context d))
         (stable_sort (getBaseClassOffset (getASTRecordLayout context d)) (nvbases_of d)) nvs
    \<and> list_all2 (field_child init context (getASTRecordLayout context d))
         (enumerate 0 (fields' d)) fs
    \<and> (\<forall>y\<in>set nvs. nature (info y) = NVBase \<or> nature (info y) = NVPrimaryBase)
    \<and> (\<forall>y\<in>set fs. nature (info y) = ComplexField \<or> nature (info y) = Bitfield
                      \<or> nature (info y) = SimpleField)
    \<and> (\<forall>y\<in>set vs. nature (info y) = VtorDisp \<or> nature (info y) = VBase
                      \<or> nature (info y) = VPrimaryBase)
    \<and> (\<not> ivb \<longrightarrow> vs = [])"
proof -
  let ?layout = "getASTRecordLayout context d"
  from ComputeStruct_children[OF run] obtain nvs fs vss where
    ch: "children n = vptr_nodes init context d @ nvs @ vbptr_nodes init context d @ fs @ concat vss"
    and l1: "list_all2 (nvbase_child init context ?layout)
         (stable_sort (getBaseClassOffset ?layout) (nvbases_of d)) nvs"
    and l2: "list_all2 (field_child init context ?layout) (enumerate 0 (fields' d)) fs"
    and l3: "if ivb then list_all2 (vbase_children init context ?layout) (vbases d) vss
             else vss = []"
    by blast
  have a: "\<forall>y\<in>set nvs. nature (info y) = NVBase \<or> nature (info y) = NVPrimaryBase"
  proof
    fix y assume "y \<in> set nvs"
    from list_all2_right[OF l1 this] obtain base where "nvbase_child init context ?layout base y"
      by blast
    from nvbase_child_info(1)[OF this] show "nature (info y) = NVBase \<or> nature (info y) = NVPrimaryBase"
      by (simp split: if_splits)
  qed
  have b: "\<forall>y\<in>set fs. nature (info y) = ComplexField \<or> nature (info y) = Bitfield
                      \<or> nature (info y) = SimpleField"
  proof
    fix y assume "y \<in> set fs"
    from list_all2_right[OF l2 this] obtain p where "field_child init context ?layout p y"
      by blast
    from field_child_nature[OF this] show "nature (info y) = ComplexField \<or> nature (info y) = Bitfield
                      \<or> nature (info y) = SimpleField"
      by (simp split: if_splits)
  qed
  have c: "\<forall>y\<in>set (concat vss). nature (info y) = VtorDisp \<or> nature (info y) = VBase
                      \<or> nature (info y) = VPrimaryBase"
  proof
    fix y assume "y \<in> set (concat vss)"
    then obtain ys where ys: "ys \<in> set vss" "y \<in> set ys" by auto
    then have ivb using l3 by (cases ivb) auto
    with l3 have "list_all2 (vbase_children init context ?layout) (vbases d) vss" by simp
    from list_all2_right[OF this ys(1)] obtain Base where
      "vbase_children init context ?layout Base ys" by blast
    from vbase_children_nature[OF this ys(2)]
    show "nature (info y) = VtorDisp \<or> nature (info y) = VBase \<or> nature (info y) = VPrimaryBase" .
  qed
  have e: "\<not> ivb \<longrightarrow> concat vss = []" using l3 by auto
  from ch l1 l2 a b c e show ?thesis by blast
qed

lemma filter_nothing: "(\<And>x. x \<in> set xs \<Longrightarrow> \<not> P x) \<Longrightarrow> filter P xs = []"
  by (induction xs) auto

text \<open>
  C6. Among the children of a built node there is a vtable pointer exactly when the
  class is dynamic, has no primary base and the ABI is not Microsoft's, and a vftable
  pointer exactly when that does not hold and the layout has its own vftable pointer;
  so never both. Each sits at offset 0 with the size and alignment of a pointer of the
  target. There is a vbtable pointer exactly when the layout has its own, at the
  offset the layout reports.
\<close>

theorem ComputeStruct_table_pointers:
  assumes "ComputeStruct init context d ivb g = Inr (n, g')"
  shows "filter (\<lambda>c. nature (info c) = VTablePtr) (children n) =
           (if isDynamicClass (decl_info d) \<and> getPrimaryBase (getASTRecordLayout context d) = None
               \<and> \<not> isMicrosoft (getTargetInfo context)
            then [pointer_Node init context VTablePtr 0] else [])
       \<and> filter (\<lambda>c. nature (info c) = VFTablePtr) (children n) =
           (if \<not> (isDynamicClass (decl_info d) \<and> getPrimaryBase (getASTRecordLayout context d) = None
                   \<and> \<not> isMicrosoft (getTargetInfo context))
               \<and> hasOwnVFPtr (getASTRecordLayout context d)
            then [pointer_Node init context VFTablePtr 0] else [])
       \<and> (filter (\<lambda>c. nature (info c) = VTablePtr) (children n) = []
          \<or> filter (\<lambda>c. nature (info c) = VFTablePtr) (children n) = [])
       \<and> filter (\<lambda>c. nature (info c) = VBTablePtr) (children n) =
           (if hasOwnVBPtr (getASTRecordLayout context d)
            then [pointer_Node init context VBTablePtr
                    (getVBPtrOffset (getASTRecordLayout context d))]
            else [])
       \<and> (\<forall>c\<in>set (children n).
             nature (info c) = VTablePtr \<or> nature (info c) = VFTablePtr \<longrightarrow>
             offset (info c) = 0
           \<and> size' (info c) = toCharUnitsFromBits context (getPointerWidth (getTargetInfo context))
           \<and> align (info c) = toCharUnitsFromBits context (getPointerAlign (getTargetInfo context)))
       \<and> (\<forall>c\<in>set (children n).
             nature (info c) = VBTablePtr \<longrightarrow>
             offset (info c) = getVBPtrOffset (getASTRecordLayout context d)
           \<and> size' (info c) = toCharUnitsFromBits context (getPointerWidth (getTargetInfo context))
           \<and> align (info c) = toCharUnitsFromBits context (getPointerAlign (getTargetInfo context)))"
proof -
  let ?layout = "getASTRecordLayout context d"
  from ComputeStruct_segments[OF assms] obtain nvs fs vs where
    ch: "children n = vptr_nodes init context d @ nvs @ vbptr_nodes init context d @ fs @ vs"
    and a: "\<forall>y\<in>set nvs. nature (info y) = NVBase \<or> nature (info y) = NVPrimaryBase"
    and b: "\<forall>y\<in>set fs. nature (info y) = ComplexField \<or> nature (info y) = Bitfield
                      \<or> nature (info y) = SimpleField"
    and c: "\<forall>y\<in>set vs. nature (info y) = VtorDisp \<or> nature (info y) = VBase
                      \<or> nature (info y) = VPrimaryBase"
    by blast
  have other: "filter (\<lambda>c. nature (info c) = k) nvs = []"
     "filter (\<lambda>c. nature (info c) = k) fs = []"
     "filter (\<lambda>c. nature (info c) = k) vs = []"
    if "k = VTablePtr \<or> k = VFTablePtr \<or> k = VBTablePtr" for k
    using that a b c by (auto intro!: filter_nothing)
  have f1: "filter (\<lambda>c. nature (info c) = VTablePtr) (children n) =
           (if isDynamicClass (decl_info d) \<and> getPrimaryBase ?layout = None
               \<and> \<not> isMicrosoft (getTargetInfo context)
            then [pointer_Node init context VTablePtr 0] else [])"
    unfolding ch by (simp add: other) (simp add: vptr_nodes_def vbptr_nodes_def Let_def)
  have f2: "filter (\<lambda>c. nature (info c) = VFTablePtr) (children n) =
           (if \<not> (isDynamicClass (decl_info d) \<and> getPrimaryBase ?layout = None
                   \<and> \<not> isMicrosoft (getTargetInfo context))
               \<and> hasOwnVFPtr ?layout
            then [pointer_Node init context VFTablePtr 0] else [])"
    unfolding ch by (simp add: other) (simp add: vptr_nodes_def vbptr_nodes_def Let_def)
  have f3: "filter (\<lambda>c. nature (info c) = VBTablePtr) (children n) =
           (if hasOwnVBPtr ?layout
            then [pointer_Node init context VBTablePtr (getVBPtrOffset ?layout)]
            else [])"
    unfolding ch by (simp add: other) (simp add: vptr_nodes_def vbptr_nodes_def Let_def)
  have f4: "filter (\<lambda>c. nature (info c) = VTablePtr) (children n) = []
          \<or> filter (\<lambda>c. nature (info c) = VFTablePtr) (children n) = []"
    unfolding f1 f2 by simp
  have f5: "\<forall>c\<in>set (children n).
             nature (info c) = VTablePtr \<or> nature (info c) = VFTablePtr \<longrightarrow>
             offset (info c) = 0
           \<and> size' (info c) = toCharUnitsFromBits context (getPointerWidth (getTargetInfo context))
           \<and> align (info c) = toCharUnitsFromBits context (getPointerAlign (getTargetInfo context))"
  proof (intro ballI impI)
    fix c assume c: "c \<in> set (children n)"
      and k: "nature (info c) = VTablePtr \<or> nature (info c) = VFTablePtr"
    from vptr_nodes_nature[OF ComputeStruct_child_vptr[OF assms c k]]
    have "c = pointer_Node init context (nature (info c)) 0" by simp
    then show "offset (info c) = 0
           \<and> size' (info c) = toCharUnitsFromBits context (getPointerWidth (getTargetInfo context))
           \<and> align (info c) = toCharUnitsFromBits context (getPointerAlign (getTargetInfo context))"
      by (metis pointer_Node_info(2,3,4))
  qed
  have f6: "\<forall>c\<in>set (children n).
             nature (info c) = VBTablePtr \<longrightarrow>
             offset (info c) = getVBPtrOffset ?layout
           \<and> size' (info c) = toCharUnitsFromBits context (getPointerWidth (getTargetInfo context))
           \<and> align (info c) = toCharUnitsFromBits context (getPointerAlign (getTargetInfo context))"
  proof (intro ballI impI)
    fix c assume c: "c \<in> set (children n)" and k: "nature (info c) = VBTablePtr"
    from vbptr_nodes_nature[OF ComputeStruct_child_vbptr[OF assms c k]]
    have "c = pointer_Node init context VBTablePtr (getVBPtrOffset ?layout)" by simp
    then show "offset (info c) = getVBPtrOffset ?layout
           \<and> size' (info c) = toCharUnitsFromBits context (getPointerWidth (getTargetInfo context))
           \<and> align (info c) = toCharUnitsFromBits context (getPointerAlign (getTargetInfo context))"
      by simp
  qed
  from f1 f2 f4 f3 f5 f6 show ?thesis by (intro conjI)
qed


section \<open>The children of a built node, by index\<close>

lemma Inr_projr: "\<not> isl r \<Longrightarrow> r = Inr (fst (projr r), snd (projr r))"
  by (cases r) simp_all

lemma ComputeStruct_nth:
  assumes run: "ComputeStruct init context d ivb g = Inr (n, g')"
  shows "\<And>i. i < length (nvbases_of d) \<Longrightarrow>
           nvbase_child init context (getASTRecordLayout context d)
             (stable_sort (getBaseClassOffset (getASTRecordLayout context d)) (nvbases_of d) ! i)
             (children n ! (length (vptr_nodes init context d) + i))"
    and "\<And>i. i < length (fields' d) \<Longrightarrow>
           field_child init context (getASTRecordLayout context d) (i, fields' d ! i)
             (children n ! (first_field_index init context d + i))"
    and "ivb \<Longrightarrow> \<exists>vss. drop (first_vbase_index init context d) (children n) = concat vss
           \<and> list_all2 (vbase_children init context (getASTRecordLayout context d)) (vbases d) vss"
    and "\<not> ivb \<Longrightarrow> length (children n) = first_vbase_index init context d"
    and "take (length (vptr_nodes init context d)) (children n) = vptr_nodes init context d"
proof -
  let ?layout = "getASTRecordLayout context d"
  let ?sorted = "stable_sort (getBaseClassOffset ?layout) (nvbases_of d)"
  from ComputeStruct_children[OF run] obtain nvs fs vss where
    ch: "children n = vptr_nodes init context d @ nvs @ vbptr_nodes init context d @ fs @ concat vss"
    and l1: "list_all2 (nvbase_child init context ?layout) ?sorted nvs"
    and l2: "list_all2 (field_child init context ?layout) (enumerate 0 (fields' d)) fs"
    and l3: "if ivb then list_all2 (vbase_children init context ?layout) (vbases d) vss
             else vss = []"
    by blast
  have n1: "length nvs = length (nvbases_of d)"
    using list_all2_lengthD[OF l1] by (simp add: stable_sort_def)
  have n2: "length fs = length (fields' d)"
    using list_all2_lengthD[OF l2] by simp
  show "nvbase_child init context ?layout (?sorted ! i)
             (children n ! (length (vptr_nodes init context d) + i))"
    if "i < length (nvbases_of d)" for i
  proof -
    from that n1 have i: "i < length nvs" by simp
    have "children n ! (length (vptr_nodes init context d) + i) = nvs ! i"
      unfolding ch using i by (simp add: nth_append)
    with list_all2_nthD2[OF l1 i] show ?thesis by simp
  qed
  show "field_child init context ?layout (i, fields' d ! i)
             (children n ! (first_field_index init context d + i))"
    if "i < length (fields' d)" for i
  proof -
    from that n2 have i: "i < length fs" by simp
    have "children n ! (first_field_index init context d + i) = fs ! i"
      unfolding ch first_field_index_def using i n1 by (simp add: nth_append)
    moreover have "enumerate 0 (fields' d) ! i = (i, fields' d ! i)"
      using that by (simp add: nth_enumerate_eq)
    ultimately show ?thesis using list_all2_nthD2[OF l2 i] by simp
  qed
  have dr: "drop (first_vbase_index init context d) (children n) = concat vss"
    unfolding ch first_vbase_index_def first_field_index_def using n1 n2 by simp
  show "\<exists>vss. drop (first_vbase_index init context d) (children n) = concat vss
           \<and> list_all2 (vbase_children init context ?layout) (vbases d) vss" if ivb
    using dr l3 that by auto
  show "length (children n) = first_vbase_index init context d" if "\<not> ivb"
    using l3 that unfolding ch first_vbase_index_def first_field_index_def using n1 n2 by simp
  show "take (length (vptr_nodes init context d)) (children n) = vptr_nodes init context d"
    unfolding ch by simp
qed

theorem ComputeStruct_table_pointers_witness:
  "\<not> isl (ComputeStruct Init ctxM declM True G0)
   \<and> filter (\<lambda>c. nature (info c) = VBTablePtr)
        (children (fst (projr (ComputeStruct Init ctxM declM True G0))))
      = [pointer_Node Init ctxM VBTablePtr 0]
   \<and> filter (\<lambda>c. nature (info c) = VTablePtr)
        (children (fst (projr (ComputeStruct Init ctxM declM True G0)))) = []
   \<and> filter (\<lambda>c. nature (info c) = VFTablePtr)
        (children (fst (projr (ComputeStruct Init ctxM declM True G0)))) = []"
proof -
  note T = ComputeStruct_table_pointers[OF Inr_projr[OF runM]]
  have a: "hasOwnVBPtr (getASTRecordLayout ctxM declM)"
    "getVBPtrOffset (getASTRecordLayout ctxM declM) = 0"
    "isMicrosoft (getTargetInfo ctxM)" "\<not> hasOwnVFPtr (getASTRecordLayout ctxM declM)"
    by (simp_all add: example_defs)
  from T a runM show ?thesis by simp
qed

section \<open>Virtual bases\<close>

text \<open>
  C4. With \<open>includeVirtualBases\<close>, the children after the fields are what the virtual
  bases emit, one group per virtual base in declaration order: a \<open>VtorDisp\<close> node of size
  4 and alignment 4 at the base's offset minus 4 when the layout's map says the base has
  a vtordisp, then the node built for the base with \<open>includeVirtualBases = false\<close>, put
  at the base's offset and tagged \<open>VPrimaryBase\<close> when the base is the primary base and
  \<open>VBase\<close> otherwise. Without \<open>includeVirtualBases\<close> the children end with the fields
  and none of them has one of these three categories.
\<close>

theorem ComputeStruct_virtual_bases:
  assumes "ComputeStruct init context d ivb g = Inr (n, g')"
  shows "(ivb \<longrightarrow>
            (\<exists>vss. drop (first_vbase_index init context d) (children n) = concat vss
               \<and> list_all2
                    (\<lambda>Base ys. \<exists>vtorDisp g1 vBaseNode g2.
                        getVBaseOffsetsMap (getASTRecordLayout context d)
                          (getAsCXXRecordDecl_base Base) = Some vtorDisp
                      \<and> ComputeStruct init context (getAsCXXRecordDecl_base Base) False g1
                          = Inr (vBaseNode, g2)
                      \<and> ys = (if hasVtorDisp vtorDisp
                               then [vtorDisp_Node init
                                       (getVBaseClassOffset (getASTRecordLayout context d)
                                          (getAsCXXRecordDecl_base Base))]
                               else [])
                            @ [update (\<lambda>i. i\<lparr>offset :=
                                                getVBaseClassOffset (getASTRecordLayout context d)
                                                  (getAsCXXRecordDecl_base Base),
                                              nature :=
                                                (if Some (getAsCXXRecordDecl_base Base)
                                                    = getPrimaryBase (getASTRecordLayout context d)
                                                 then VPrimaryBase else VBase)\<rparr>) vBaseNode])
                    (vbases d) vss))
       \<and> (\<not> ivb \<longrightarrow>
            length (children n) = first_vbase_index init context d
          \<and> (\<forall>c\<in>set (children n). nature (info c) \<noteq> VtorDisp \<and> nature (info c) \<noteq> VBase
                                    \<and> nature (info c) \<noteq> VPrimaryBase))
       \<and> (\<forall>off. nature (info (vtorDisp_Node init off)) = VtorDisp
                \<and> offset (info (vtorDisp_Node init off)) = off - 4
                \<and> size' (info (vtorDisp_Node init off)) = 4
                \<and> align (info (vtorDisp_Node init off)) = 4)"
proof (intro conjI impI)
  assume ivb
  from ComputeStruct_nth(3)[OF assms this] obtain vss where
    d: "drop (first_vbase_index init context d) (children n) = concat vss"
    and l: "list_all2 (vbase_children init context (getASTRecordLayout context d)) (vbases d) vss"
    by blast
  from l have "list_all2
                    (\<lambda>Base ys. \<exists>vtorDisp g1 vBaseNode g2.
                        getVBaseOffsetsMap (getASTRecordLayout context d)
                          (getAsCXXRecordDecl_base Base) = Some vtorDisp
                      \<and> ComputeStruct init context (getAsCXXRecordDecl_base Base) False g1
                          = Inr (vBaseNode, g2)
                      \<and> ys = (if hasVtorDisp vtorDisp
                               then [vtorDisp_Node init
                                       (getVBaseClassOffset (getASTRecordLayout context d)
                                          (getAsCXXRecordDecl_base Base))]
                               else [])
                            @ [update (\<lambda>i. i\<lparr>offset :=
                                                getVBaseClassOffset (getASTRecordLayout context d)
                                                  (getAsCXXRecordDecl_base Base),
                                              nature :=
                                                (if Some (getAsCXXRecordDecl_base Base)
                                                    = getPrimaryBase (getASTRecordLayout context d)
                                                 then VPrimaryBase else VBase)\<rparr>) vBaseNode])
                    (vbases d) vss"
    by (rule list_all2_mono) (simp add: vbase_children_def)
  with d show "\<exists>vss. drop (first_vbase_index init context d) (children n) = concat vss
               \<and> list_all2
                    (\<lambda>Base ys. \<exists>vtorDisp g1 vBaseNode g2.
                        getVBaseOffsetsMap (getASTRecordLayout context d)
                          (getAsCXXRecordDecl_base Base) = Some vtorDisp
                      \<and> ComputeStruct init context (getAsCXXRecordDecl_base Base) False g1
                          = Inr (vBaseNode, g2)
                      \<and> ys = (if hasVtorDisp vtorDisp
                               then [vtorDisp_Node init
                                       (getVBaseClassOffset (getASTRecordLayout context d)
                                          (getAsCXXRecordDecl_base Base))]
                               else [])
                            @ [update (\<lambda>i. i\<lparr>offset :=
                                                getVBaseClassOffset (getASTRecordLayout context d)
                                                  (getAsCXXRecordDecl_base Base),
                                              nature :=
                                                (if Some (getAsCXXRecordDecl_base Base)
                                                    = getPrimaryBase (getASTRecordLayout context d)
                                                 then VPrimaryBase else VBase)\<rparr>) vBaseNode])
                    (vbases d) vss"
    by blast
next
  assume f: "\<not> ivb"
  from ComputeStruct_nth(4)[OF assms f]
  show "length (children n) = first_vbase_index init context d" .
next
  assume f: "\<not> ivb"
  from ComputeStruct_segments[OF assms] obtain nvs fs vs where
    ch: "children n = vptr_nodes init context d @ nvs @ vbptr_nodes init context d @ fs @ vs"
    and a: "\<forall>y\<in>set nvs. nature (info y) = NVBase \<or> nature (info y) = NVPrimaryBase"
    and b: "\<forall>y\<in>set fs. nature (info y) = ComplexField \<or> nature (info y) = Bitfield
                      \<or> nature (info y) = SimpleField"
    and e: "\<not> ivb \<longrightarrow> vs = []"
    by blast
  show "\<forall>c\<in>set (children n). nature (info c) \<noteq> VtorDisp \<and> nature (info c) \<noteq> VBase
                                    \<and> nature (info c) \<noteq> VPrimaryBase"
  proof
    fix c assume "c \<in> set (children n)"
    with ch e f consider "c \<in> set (vptr_nodes init context d)" | "c \<in> set nvs"
      | "c \<in> set (vbptr_nodes init context d)" | "c \<in> set fs" by auto
    then show "nature (info c) \<noteq> VtorDisp \<and> nature (info c) \<noteq> VBase
               \<and> nature (info c) \<noteq> VPrimaryBase"
    proof cases
      case 1
      from vptr_nodes_nature[OF this] show ?thesis by auto
    next
      case 2
      with a show ?thesis by auto
    next
      case 3
      from vbptr_nodes_nature[OF this] show ?thesis by auto
    next
      case 4
      with b show ?thesis by auto
    qed
  qed
next
  show "\<forall>off. nature (info (vtorDisp_Node init off)) = VtorDisp
                \<and> offset (info (vtorDisp_Node init off)) = off - 4
                \<and> size' (info (vtorDisp_Node init off)) = 4
                \<and> align (info (vtorDisp_Node init off)) = 4"
    by simp
qed

lemma runM': "\<not> isl (ComputeStruct Init ctxM declM False G0)"
  by (simp add: example_defs build_defs)

theorem ComputeStruct_virtual_bases_witness:
  "\<not> isl (ComputeStruct Init ctxM declM True G0)
   \<and> \<not> isl (ComputeStruct Init ctxM declM False G0)
   \<and> map (nature \<circ> info) (children (fst (projr (ComputeStruct Init ctxM declM True G0))))
       = [VBTablePtr, SimpleField, VtorDisp, VBase]
   \<and> map (offset \<circ> info) (children (fst (projr (ComputeStruct Init ctxM declM True G0))))
       = [0, 4, 8, 12]
   \<and> first_vbase_index Init ctxM declM = 2
   \<and> length (children (fst (projr (ComputeStruct Init ctxM declM False G0)))) = 2"
proof -
  have a: "map (nature \<circ> info) (children (fst (projr (ComputeStruct Init ctxM declM True G0))))
       = [VBTablePtr, SimpleField, VtorDisp, VBase]"
    "map (offset \<circ> info) (children (fst (projr (ComputeStruct Init ctxM declM True G0))))
       = [0, 4, 8, 12]"
    by (simp_all add: example_defs build_defs)
  have b: "first_vbase_index Init ctxM declM = 2"
    by (simp add: first_vbase_index_def first_field_index_def vptr_nodes_def vbptr_nodes_def
          nvbases_of_def example_defs)
  from ComputeStruct_virtual_bases[OF Inr_projr[OF runM']]
  have "length (children (fst (projr (ComputeStruct Init ctxM declM False G0))))
        = first_vbase_index Init ctxM declM" by blast
  with a b runM runM' show ?thesis by simp
qed

section \<open>Fields\<close>

lemma bit_in_slot:
  "int bits - toBits context (toCharUnitsFromBits context bits)
   = int (bits mod getCharWidth (getTargetInfo context))"
proof -
  let ?w = "getCharWidth (getTargetInfo context)"
  have "bits = bits div ?w * ?w + bits mod ?w" by simp
  then have "int bits = int (bits div ?w) * int ?w + int (bits mod ?w)"
    by (metis of_nat_add of_nat_mult)
  then show ?thesis by (simp add: toBits_def toCharUnitsFromBits_def)
qed

text \<open>
  C5. The child a bitfield member emits (a field whose type is not a record) is a
  \<open>Bitfield\<close> node at the byte offset of the field, with the byte size and alignment of
  the field's type, and with exactly one child: its offset is the bit offset of the
  field within its byte, its size is the bit width. In particular a 3-bit field at bit
  offset 0 gives the child offset 0 and size 3.
\<close>

theorem ComputeStruct_bitfield:
  assumes "ComputeStruct init context d ivb g = Inr (n, g')"
    and "i < length (fields' d)"
    and "getAsCXXRecordDecl (fields' d ! i) = None"
    and "isBitField (field_info (fields' d ! i))"
  shows "nature (info (children n ! (first_field_index init context d + i))) = Bitfield
       \<and> size' (info (children n ! (first_field_index init context d + i)))
           = toCharUnitsFromBits context (Width (getTypeInfo (field_info (fields' d ! i))))
       \<and> align (info (children n ! (first_field_index init context d + i)))
           = toCharUnitsFromBits context (Align (getTypeInfo (field_info (fields' d ! i))))
       \<and> offset (info (children n ! (first_field_index init context d + i)))
           = toCharUnitsFromBits context (getFieldOffset (getASTRecordLayout context d) i)
       \<and> length (children (children n ! (first_field_index init context d + i))) = 1
       \<and> offset (info (hd (children (children n ! (first_field_index init context d + i)))))
           = int (getFieldOffset (getASTRecordLayout context d) i
                  mod getCharWidth (getTargetInfo context))
       \<and> size' (info (hd (children (children n ! (first_field_index init context d + i)))))
           = int (getBitWidthValue (field_info (fields' d ! i)))
       \<and> (getFieldOffset (getASTRecordLayout context d) i = 0
            \<and> getBitWidthValue (field_info (fields' d ! i)) = 3 \<longrightarrow>
            offset (info (hd (children (children n ! (first_field_index init context d + i))))) = 0
          \<and> size' (info (hd (children (children n ! (first_field_index init context d + i))))) = 3)"
proof -
  let ?c = "children n ! (first_field_index init context d + i)"
  from ComputeStruct_nth(2)[OF assms(1,2)] assms(3,4)
  have c: "?c = Bitfield_Node init context (field_info (fields' d ! i))
                  (getFieldOffset (getASTRecordLayout context d) i)"
    by (simp add: field_child_def)
  have o: "offset (info (hd (children ?c)))
           = int (getFieldOffset (getASTRecordLayout context d) i
                  mod getCharWidth (getTargetInfo context))"
    and s: "size' (info (hd (children ?c))) = int (getBitWidthValue (field_info (fields' d ! i)))"
    unfolding c by (simp_all add: bit_in_slot)
  have p: "getFieldOffset (getASTRecordLayout context d) i = 0
            \<and> getBitWidthValue (field_info (fields' d ! i)) = 3 \<longrightarrow>
            offset (info (hd (children ?c))) = 0 \<and> size' (info (hd (children ?c))) = 3"
    unfolding o s by simp
  have r: "nature (info ?c) = Bitfield"
    "size' (info ?c) = toCharUnitsFromBits context (Width (getTypeInfo (field_info (fields' d ! i))))"
    "align (info ?c) = toCharUnitsFromBits context (Align (getTypeInfo (field_info (fields' d ! i))))"
    "offset (info ?c) = toCharUnitsFromBits context (getFieldOffset (getASTRecordLayout context d) i)"
    "length (children ?c) = 1"
    unfolding c by simp_all
  from r o s p show ?thesis by (intro conjI)
qed

lemma runS: "\<not> isl (ComputeStruct Init ctxS declS True G0)"
  by (simp add: declS_def ctxS_def example_defs build_defs)

theorem ComputeStruct_bitfield_witness:
  "\<not> isl (ComputeStruct Init ctxS declS True G0)
   \<and> (0::nat) < length (fields' declS)
   \<and> getAsCXXRecordDecl (fields' declS ! 0) = None
   \<and> isBitField (field_info (fields' declS ! 0))
   \<and> getFieldOffset (getASTRecordLayout ctxS declS) 0 = 0
   \<and> getBitWidthValue (field_info (fields' declS ! 0)) = 3
   \<and> nature (info (children (fst (projr (ComputeStruct Init ctxS declS True G0)))
                      ! (first_field_index Init ctxS declS + 0))) = Bitfield
   \<and> size' (info (children (fst (projr (ComputeStruct Init ctxS declS True G0)))
                      ! (first_field_index Init ctxS declS + 0))) = 4
   \<and> offset (info (hd (children (children (fst (projr (ComputeStruct Init ctxS declS True G0)))
                      ! (first_field_index Init ctxS declS + 0))))) = 0
   \<and> size' (info (hd (children (children (fst (projr (ComputeStruct Init ctxS declS True G0)))
                      ! (first_field_index Init ctxS declS + 0))))) = 3"
proof -
  have h: "(0::nat) < length (fields' declS)" "getAsCXXRecordDecl (fields' declS ! 0) = None"
    "isBitField (field_info (fields' declS ! 0))"
    "getFieldOffset (getASTRecordLayout ctxS declS) 0 = 0"
    "getBitWidthValue (field_info (fields' declS ! 0)) = 3"
    "toCharUnitsFromBits ctxS (Width (getTypeInfo (field_info (fields' declS ! 0)))) = 4"
    by (simp_all add: declS_def ctxS_def example_defs toCharUnitsFromBits_def)
  from ComputeStruct_bitfield[OF Inr_projr[OF runS] h(1,2,3)] h runS
  show ?thesis by simp
qed

lemma RetrieveLocation_resolved:
  assumes "resolvable context location"
  shows "\<exists>idx g'.
          AddFileToDictionary
            (getFileID (getPresumedLoc (getSourceManager context) location))
            (getFilename (getPresumedLoc (getSourceManager context) location)) g = (idx, g')
        \<and> RetrieveLocation output context location g =
            (\<lparr>fileIndex = static_cast_int idx,
              line = getLine (getPresumedLoc (getSourceManager context) location),
              column = getColumn (getPresumedLoc (getSourceManager context) location)\<rparr>, g')"
proof -
  let ?pl = "getPresumedLoc (getSourceManager context) location"
  obtain idx g' where a: "AddFileToDictionary (getFileID ?pl) (getFilename ?pl) g = (idx, g')"
    by force
  have "RetrieveLocation output context location g =
            (\<lparr>fileIndex = static_cast_int idx, line = getLine ?pl, column = getColumn ?pl\<rparr>, g')"
    using assms a by (simp add: resolvable_def RetrieveLocation_def Let_def)
  with a show ?thesis by blast
qed

lemma field_child_location:
  assumes "field_child init context layout (i, f) c"
  shows "getAsCXXRecordDecl f = None \<and> isBitField (field_info f) \<Longrightarrow>
           fieldLocation (info c) = fieldLocation init"
    and "\<not> (getAsCXXRecordDecl f = None \<and> isBitField (field_info f)) \<Longrightarrow>
         resolvable context (getLocation_field (field_info f)) \<Longrightarrow>
           \<exists>idx gs gs'.
              AddFileToDictionary
                (getFileID (getPresumedLoc (getSourceManager context) (getLocation_field (field_info f))))
                (getFilename (getPresumedLoc (getSourceManager context) (getLocation_field (field_info f))))
                gs = (idx, gs')
            \<and> fieldLocation (info c) =
                \<lparr>fileIndex = static_cast_int idx,
                  line = getLine (getPresumedLoc (getSourceManager context)
                                    (getLocation_field (field_info f))),
                  column = getColumn (getPresumedLoc (getSourceManager context)
                                        (getLocation_field (field_info f)))\<rparr>"
proof -
  show "fieldLocation (info c) = fieldLocation init"
    if "getAsCXXRecordDecl f = None \<and> isBitField (field_info f)"
    using assms that by (simp add: field_child_def)
  show "\<exists>idx gs gs'.
              AddFileToDictionary
                (getFileID (getPresumedLoc (getSourceManager context) (getLocation_field (field_info f))))
                (getFilename (getPresumedLoc (getSourceManager context) (getLocation_field (field_info f))))
                gs = (idx, gs')
            \<and> fieldLocation (info c) =
                \<lparr>fileIndex = static_cast_int idx,
                  line = getLine (getPresumedLoc (getSourceManager context)
                                    (getLocation_field (field_info f))),
                  column = getColumn (getPresumedLoc (getSourceManager context)
                                        (getLocation_field (field_info f)))\<rparr>"
    if nb: "\<not> (getAsCXXRecordDecl f = None \<and> isBitField (field_info f))"
      and r: "resolvable context (getLocation_field (field_info f))"
  proof -
    have "\<exists>out gs loc gs'. RetrieveLocation out context (getLocation_field (field_info f)) gs = (loc, gs')
            \<and> fieldLocation (info c) = loc"
    proof (cases "getAsCXXRecordDecl f")
      case None
      with nb have "\<not> isBitField (field_info f)" by simp
      with assms None obtain gs loc gs' where
        l: "RetrieveLocation (fieldLocation init) context (getLocation_field (field_info f)) gs
            = (loc, gs')"
        and "c = update (\<lambda>n. n\<lparr>fieldLocation := loc\<rparr>)
                   (simple_Node init context SimpleField (field_info f)
                      (toCharUnitsFromBits context (getFieldOffset layout i)))"
        by (auto simp: field_child_def)
      then have "fieldLocation (info c) = loc" by simp
      with l show ?thesis by blast
    next
      case (Some fd)
      with assms obtain gs fieldNode g1 loc gs' where
        "RetrieveLocation (fieldLocation (info fieldNode)) context
                (getLocation_field (field_info f)) g1 = (loc, gs')"
        and "c = update (\<lambda>n. n\<lparr>fieldLocation := loc\<rparr>)
                       (update (\<lambda>n. n\<lparr>name := getNameAsString (field_info f),
                                      type := getAsString (field_info f),
                                      offset := toCharUnitsFromBits context (getFieldOffset layout i),
                                      nature := ComplexField\<rparr>) fieldNode)"
        by (auto simp: field_child_def)
      then have "RetrieveLocation (fieldLocation (info fieldNode)) context
                (getLocation_field (field_info f)) g1 = (loc, gs') \<and> fieldLocation (info c) = loc"
        by simp
      then show ?thesis by blast
    qed
    then obtain out gs loc gs' where
      l: "RetrieveLocation out context (getLocation_field (field_info f)) gs = (loc, gs')"
      and c: "fieldLocation (info c) = loc" by blast
    from RetrieveLocation_resolved[OF r, of gs out] l c show ?thesis by auto
  qed
qed

text \<open>
  C10. Among the children the fields emit, the category is \<open>ComplexField\<close> for a field of
  record type, \<open>Bitfield\<close> for a bitfield and \<open>SimpleField\<close> otherwise. A \<open>Bitfield\<close> child
  keeps the field location a fresh node has, whatever the location of the field
  declaration, and emitting it leaves the file table as it is. A \<open>SimpleField\<close> or
  \<open>ComplexField\<close> child, when the location of the field declaration resolves, carries
  the presumed line and column of that location and the index its file was interned
  under.
\<close>

theorem ComputeStruct_field_location:
  assumes "ComputeStruct init context d ivb g = Inr (n, g')"
    and "i < length (fields' d)"
  shows "nature (info (children n ! (first_field_index init context d + i)))
           = (if getAsCXXRecordDecl (fields' d ! i) \<noteq> None then ComplexField
              else if isBitField (field_info (fields' d ! i)) then Bitfield else SimpleField)
       \<and> (nature (info (children n ! (first_field_index init context d + i))) = Bitfield \<longrightarrow>
            fieldLocation (info (children n ! (first_field_index init context d + i)))
              = fieldLocation init
          \<and> (\<forall>build node gs.
                field_body build init context (getASTRecordLayout context d)
                  (i, fields' d ! i) (node, gs)
                = Inr (push_back node
                         (Bitfield_Node init context (field_info (fields' d ! i))
                            (getFieldOffset (getASTRecordLayout context d) i)), gs)))
       \<and> ((nature (info (children n ! (first_field_index init context d + i))) = SimpleField
            \<or> nature (info (children n ! (first_field_index init context d + i))) = ComplexField)
          \<and> resolvable context (getLocation_field (field_info (fields' d ! i))) \<longrightarrow>
            (\<exists>idx gs gs'.
                AddFileToDictionary
                  (getFileID (getPresumedLoc (getSourceManager context)
                                (getLocation_field (field_info (fields' d ! i)))))
                  (getFilename (getPresumedLoc (getSourceManager context)
                                  (getLocation_field (field_info (fields' d ! i)))))
                  gs = (idx, gs')
              \<and> fieldLocation (info (children n ! (first_field_index init context d + i))) =
                  \<lparr>fileIndex = static_cast_int idx,
                    line = getLine (getPresumedLoc (getSourceManager context)
                                      (getLocation_field (field_info (fields' d ! i)))),
                    column = getColumn (getPresumedLoc (getSourceManager context)
                                          (getLocation_field (field_info (fields' d ! i))))\<rparr>))"
proof -
  let ?f = "fields' d ! i"
  let ?c = "children n ! (first_field_index init context d + i)"
  note fc = ComputeStruct_nth(2)[OF assms]
  have nat: "nature (info ?c)
           = (if getAsCXXRecordDecl ?f \<noteq> None then ComplexField
              else if isBitField (field_info ?f) then Bitfield else SimpleField)"
    using field_child_nature[OF fc] by simp
  have bit: "fieldLocation (info ?c) = fieldLocation init
          \<and> (\<forall>build node gs.
                field_body build init context (getASTRecordLayout context d) (i, ?f) (node, gs)
                = Inr (push_back node
                         (Bitfield_Node init context (field_info ?f)
                            (getFieldOffset (getASTRecordLayout context d) i)), gs))"
    if k: "nature (info ?c) = Bitfield"
  proof -
    from k nat have b: "getAsCXXRecordDecl ?f = None \<and> isBitField (field_info ?f)"
      by (auto split: if_splits)
    from field_child_location(1)[OF fc b] b show ?thesis
      by (simp add: field_body_bitfield)
  qed
  have other: "\<exists>idx gs gs'.
                AddFileToDictionary
                  (getFileID (getPresumedLoc (getSourceManager context)
                                (getLocation_field (field_info ?f))))
                  (getFilename (getPresumedLoc (getSourceManager context)
                                  (getLocation_field (field_info ?f))))
                  gs = (idx, gs')
              \<and> fieldLocation (info ?c) =
                  \<lparr>fileIndex = static_cast_int idx,
                    line = getLine (getPresumedLoc (getSourceManager context)
                                      (getLocation_field (field_info ?f))),
                    column = getColumn (getPresumedLoc (getSourceManager context)
                                          (getLocation_field (field_info ?f)))\<rparr>"
    if k: "(nature (info ?c) = SimpleField \<or> nature (info ?c) = ComplexField)
           \<and> resolvable context (getLocation_field (field_info ?f))"
  proof -
    from k nat have nb: "\<not> (getAsCXXRecordDecl ?f = None \<and> isBitField (field_info ?f))"
      by (auto split: if_splits)
    from k have r: "resolvable context (getLocation_field (field_info ?f))" by simp
    from field_child_location(2)[OF fc nb r] show ?thesis .
  qed
  show ?thesis
    apply (rule conjI)
     apply (rule nat)
    apply (rule conjI)
     apply (rule impI)
     apply (erule bit)
    apply (rule impI)
    apply (erule other)
    done
qed

theorem ComputeStruct_field_location_witness:
  "\<not> isl (ComputeStruct Init ctxR declR True G0)
   \<and> first_field_index Init ctxR declR = 2
   \<and> map (isBitField \<circ> field_info) (fields' declR) = [True, False, False]
   \<and> map (resolvable ctxR \<circ> getLocation_field \<circ> field_info) (fields' declR) = [True, True, True]
   \<and> map (nature \<circ> info) (drop 2 (children (fst (projr (ComputeStruct Init ctxR declR True G0)))))
       = [Bitfield, SimpleField, ComplexField]
   \<and> map (fieldLocation \<circ> info)
        (drop 2 (children (fst (projr (ComputeStruct Init ctxR declR True G0)))))
       = [fieldLocation Init, \<lparr>fileIndex = 0, line = 5, column = 7\<rparr>,
          \<lparr>fileIndex = 0, line = 6, column = 5\<rparr>]
   \<and> fieldLocation (info (children (fst (projr (ComputeStruct Init ctxR declR True G0)))
                            ! (first_field_index Init ctxR declR + 0))) = fieldLocation Init"
proof -
  have a: "first_field_index Init ctxR declR = 2"
    by (simp add: first_field_index_def vptr_nodes_def vbptr_nodes_def nvbases_of_def example_defs)
  have b: "map (isBitField \<circ> field_info) (fields' declR) = [True, False, False]"
    "map (resolvable ctxR \<circ> getLocation_field \<circ> field_info) (fields' declR) = [True, True, True]"
    by (simp_all add: resolvable_def example_defs)
  have c: "map (nature \<circ> info) (drop 2 (children (fst (projr (ComputeStruct Init ctxR declR True G0)))))
       = [Bitfield, SimpleField, ComplexField]"
    "map (fieldLocation \<circ> info)
        (drop 2 (children (fst (projr (ComputeStruct Init ctxR declR True G0)))))
       = [fieldLocation Init, \<lparr>fileIndex = 0, line = 5, column = 7\<rparr>,
          \<lparr>fileIndex = 0, line = 6, column = 5\<rparr>]"
    by (simp_all add: example_defs build_defs)
  have h: "(0::nat) < length (fields' declR)"
    "getAsCXXRecordDecl (fields' declR ! 0) = None \<and> isBitField (field_info (fields' declR ! 0))"
    by (simp_all add: example_defs)
  from ComputeStruct_field_location[OF Inr_projr[OF runR] h(1)] h(2)
  have d: "fieldLocation (info (children (fst (projr (ComputeStruct Init ctxR declR True G0)))
                            ! (first_field_index Init ctxR declR + 0))) = fieldLocation Init"
    by simp
  from runR a b c d show ?thesis by (intro conjI)
qed

section \<open>Non-virtual bases\<close>

text \<open>
  C3, as amended. The non-virtual bases are taken in the order of a stable sort of the
  direct non-virtual bases by the offset the layout reports. The child for each is the
  node built for it with \<open>includeVirtualBases = false\<close>, put at that offset and tagged
  \<open>NVPrimaryBase\<close> when it is the layout's primary base, \<open>NVBase\<close> otherwise. Its size is
  the non-virtual size of the base; its alignment is the alignment the layout reports
  for the base as a whole.
\<close>

theorem ComputeStruct_nonvirtual_bases:
  assumes "ComputeStruct init context d ivb g = Inr (n, g')"
    and "i < length (nvbases_of d)"
  shows "sorted (map (getBaseClassOffset (getASTRecordLayout context d))
                   (stable_sort (getBaseClassOffset (getASTRecordLayout context d)) (nvbases_of d)))
       \<and> (\<forall>k. filter (\<lambda>b. getBaseClassOffset (getASTRecordLayout context d) b = k)
                 (stable_sort (getBaseClassOffset (getASTRecordLayout context d)) (nvbases_of d))
               = filter (\<lambda>b. getBaseClassOffset (getASTRecordLayout context d) b = k)
                   (nvbases_of d))
       \<and> (\<exists>g1 baseNode g2.
             ComputeStruct init context
               (stable_sort (getBaseClassOffset (getASTRecordLayout context d)) (nvbases_of d) ! i)
               False g1 = Inr (baseNode, g2)
           \<and> children n ! (length (vptr_nodes init context d) + i) =
               update (\<lambda>x. x\<lparr>offset :=
                               getBaseClassOffset (getASTRecordLayout context d)
                                 (stable_sort (getBaseClassOffset (getASTRecordLayout context d))
                                    (nvbases_of d) ! i),
                             nature :=
                               (if Some (stable_sort (getBaseClassOffset (getASTRecordLayout context d))
                                           (nvbases_of d) ! i)
                                   = getPrimaryBase (getASTRecordLayout context d)
                                then NVPrimaryBase else NVBase)\<rparr>) baseNode)
       \<and> offset (info (children n ! (length (vptr_nodes init context d) + i)))
           = getBaseClassOffset (getASTRecordLayout context d)
               (stable_sort (getBaseClassOffset (getASTRecordLayout context d)) (nvbases_of d) ! i)
       \<and> nature (info (children n ! (length (vptr_nodes init context d) + i)))
           = (if Some (stable_sort (getBaseClassOffset (getASTRecordLayout context d))
                         (nvbases_of d) ! i)
                 = getPrimaryBase (getASTRecordLayout context d)
              then NVPrimaryBase else NVBase)
       \<and> size' (info (children n ! (length (vptr_nodes init context d) + i)))
           = getNonVirtualSize (getASTRecordLayout context
               (stable_sort (getBaseClassOffset (getASTRecordLayout context d)) (nvbases_of d) ! i))
       \<and> align (info (children n ! (length (vptr_nodes init context d) + i)))
           = getAlignment (getASTRecordLayout context
               (stable_sort (getBaseClassOffset (getASTRecordLayout context d)) (nvbases_of d) ! i))"
proof -
  let ?off = "getBaseClassOffset (getASTRecordLayout context d)"
  note c = ComputeStruct_nth(1)[OF assms]
  have 1: "sorted (map ?off (stable_sort ?off (nvbases_of d)))"
    by (simp add: stable_sort_def)
  have 2: "\<forall>k. filter (\<lambda>b. ?off b = k) (stable_sort ?off (nvbases_of d))
               = filter (\<lambda>b. ?off b = k) (nvbases_of d)"
    by (simp add: stable_sort_def sort_key_stable)
  from c have 3: "\<exists>g1 baseNode g2.
             ComputeStruct init context (stable_sort ?off (nvbases_of d) ! i) False g1
               = Inr (baseNode, g2)
           \<and> children n ! (length (vptr_nodes init context d) + i) =
               update (\<lambda>x. x\<lparr>offset := ?off (stable_sort ?off (nvbases_of d) ! i),
                             nature :=
                               (if Some (stable_sort ?off (nvbases_of d) ! i)
                                   = getPrimaryBase (getASTRecordLayout context d)
                                then NVPrimaryBase else NVBase)\<rparr>) baseNode"
    unfolding nvbase_child_def by blast
  from 1 2 3 nvbase_child_info(2)[OF c] nvbase_child_info(1)[OF c] nvbase_child_info(3)[OF c]
    nvbase_child_info(4)[OF c]
  show ?thesis by (intro conjI)
qed

theorem ComputeStruct_nonvirtual_bases_witness:
  "\<not> isl (ComputeStruct Init ctxR declR True G0)
   \<and> nvbases_of declR = [declQ, declP]
   \<and> stable_sort (getBaseClassOffset (getASTRecordLayout ctxR declR)) (nvbases_of declR)
       = [declP, declQ]
   \<and> length (vptr_nodes Init ctxR declR) = 0
   \<and> offset (info (children (fst (projr (ComputeStruct Init ctxR declR True G0))) ! (0 + 1))) = 12
   \<and> nature (info (children (fst (projr (ComputeStruct Init ctxR declR True G0))) ! (0 + 1)))
       = NVBase
   \<and> size' (info (children (fst (projr (ComputeStruct Init ctxR declR True G0))) ! (0 + 1))) = 4
   \<and> map (nature \<circ> info)
        (take 2 (children (fst (projr (ComputeStruct Init ctxR declR True G0)))))
       = [NVPrimaryBase, NVBase]"
proof -
  have a: "nvbases_of declR = [declQ, declP]" by (simp add: nvbases_of_def example_defs)
  have b: "stable_sort (getBaseClassOffset (getASTRecordLayout ctxR declR)) (nvbases_of declR)
       = [declP, declQ]"
    unfolding a by (simp add: stable_sort_def example_defs)
  have c: "length (vptr_nodes Init ctxR declR) = 0"
    by (simp add: vptr_nodes_def example_defs)
  have d: "getBaseClassOffset (getASTRecordLayout ctxR declR) declQ = 12"
    "Some declQ \<noteq> getPrimaryBase (getASTRecordLayout ctxR declR)"
    "getNonVirtualSize (getASTRecordLayout ctxR declQ) = 4"
    by (simp_all add: example_defs)
  have e: "map (nature \<circ> info)
        (take 2 (children (fst (projr (ComputeStruct Init ctxR declR True G0)))))
       = [NVPrimaryBase, NVBase]"
    by (simp add: example_defs build_defs)
  have i: "1 < length (nvbases_of declR)" by (simp add: a)
  note T = ComputeStruct_nonvirtual_bases[OF Inr_projr[OF runR] i, unfolded b c]
  from T d have
    "offset (info (children (fst (projr (ComputeStruct Init ctxR declR True G0))) ! (0 + 1))) = 12"
    "nature (info (children (fst (projr (ComputeStruct Init ctxR declR True G0))) ! (0 + 1)))
       = NVBase"
    "size' (info (children (fst (projr (ComputeStruct Init ctxR declR True G0))) ! (0 + 1))) = 4"
    by simp_all
  with runR a b c e show ?thesis by (intro conjI)
qed

text \<open>
  C3 as stated fails on the alignment: in \<open>struct Y : X\<close> the base \<open>X\<close> has the
  non-virtual alignment 8, and the node built for it carries the alignment 16 of the
  whole of \<open>X\<close>.
\<close>

theorem ComputeStruct_base_align_counterexample:
  "map (nature \<circ> info) (take 1 (children (fst (projr (ComputeStruct Init ctxY declY True G0)))))
     = [NVPrimaryBase]
   \<and> map (type \<circ> info) (take 1 (children (fst (projr (ComputeStruct Init ctxY declY True G0)))))
     = [''X'']
   \<and> map (size' \<circ> info) (take 1 (children (fst (projr (ComputeStruct Init ctxY declY True G0)))))
     = [12]
   \<and> map (align \<circ> info) (take 1 (children (fst (projr (ComputeStruct Init ctxY declY True G0)))))
     = [16]
   \<and> getNonVirtualAlignment (getASTRecordLayout ctxY declX) = 8"
  by (simp add: example_defs build_defs)

section \<open>The order of the children\<close>

lemma tree_all_iff: "tree_all Q m \<longleftrightarrow> Q (children m) \<and> (\<forall>c\<in>set (children m). tree_all Q c)"
  by (cases m) simp

lemma tree_all_update [simp]: "tree_all Q (update f m) = tree_all Q m"
  by (cases m) (simp add: update_def)

lemma tree_all_leaf: "children m = [] \<Longrightarrow> Q [] \<Longrightarrow> tree_all Q m"
  by (cases m) simp

lemma size_nvbase: "b \<in> set (nvbases_of d) \<Longrightarrow> size b < size d"
proof -
  assume "b \<in> set (nvbases_of d)"
  then obtain x where x: "x \<in> set (bases d)" "b = getAsCXXRecordDecl_base x"
    by (auto simp: nvbases_of_def)
  from base_size[OF x(1)] x(2) show ?thesis by (cases d) simp
qed

lemma size_vbase: "x \<in> set (vbases d) \<Longrightarrow> size (getAsCXXRecordDecl_base x) < size d"
  using base_size[of x "vbases d"] by (cases d) simp

lemma size_field: "f \<in> set (fields' d) \<Longrightarrow> getAsCXXRecordDecl f = Some b \<Longrightarrow> size b < size d"
  using field_size[of f "fields' d" b] by (cases d) simp

lemma field_child_offset:
  assumes "field_child init context layout p c"
  shows "offset (info c) = toCharUnitsFromBits context (getFieldOffset layout (fst p))"
proof (cases "getAsCXXRecordDecl (snd p)")
  case None
  with assms show ?thesis
    unfolding field_child_def by (cases "isBitField (field_info (snd p))") auto
next
  case (Some d)
  with assms show ?thesis unfolding field_child_def by auto
qed

lemma list_all2_map_eq:
  "list_all2 R xs ys \<Longrightarrow> (\<And>x y. R x y \<Longrightarrow> f y = h x) \<Longrightarrow> map f ys = map h xs"
  by (induction xs ys rule: list_all2_induct) auto

lemma nvbases_sorted_root:
  assumes run: "ComputeStruct init context d ivb g = Inr (n, g')"
  shows "sorted (nvbase_offsets (children n))"
proof -
  let ?off = "getBaseClassOffset (getASTRecordLayout context d)"
  from ComputeStruct_segments[OF run] obtain nvs fs vs where
    ch: "children n = vptr_nodes init context d @ nvs @ vbptr_nodes init context d @ fs @ vs"
    and l1: "list_all2 (nvbase_child init context (getASTRecordLayout context d))
         (stable_sort ?off (nvbases_of d)) nvs"
    and a: "\<forall>y\<in>set nvs. nature (info y) = NVBase \<or> nature (info y) = NVPrimaryBase"
    and b: "\<forall>y\<in>set fs. nature (info y) = ComplexField \<or> nature (info y) = Bitfield
                      \<or> nature (info y) = SimpleField"
    and c: "\<forall>y\<in>set vs. nature (info y) = VtorDisp \<or> nature (info y) = VBase
                      \<or> nature (info y) = VPrimaryBase"
    by blast
  let ?P = "\<lambda>c. nature (info c) = NVBase \<or> nature (info c) = NVPrimaryBase"
  have "filter ?P (vptr_nodes init context d) = []"
    by (rule filter_nothing) (auto dest: vptr_nodes_nature)
  moreover have "filter ?P (vbptr_nodes init context d) = []"
    by (rule filter_nothing) (auto dest: vbptr_nodes_nature)
  moreover have "filter ?P fs = []" using b by (intro filter_nothing) auto
  moreover have "filter ?P vs = []" using c by (intro filter_nothing) auto
  moreover have "filter ?P nvs = nvs" using a by simp
  ultimately have "filter ?P (children n) = nvs" unfolding ch by simp
  moreover have "map (offset \<circ> info) nvs = map ?off (stable_sort ?off (nvbases_of d))"
    by (rule list_all2_map_eq[OF l1]) (simp add: nvbase_child_info(2))
  ultimately show ?thesis by (simp add: nvbase_offsets_def stable_sort_def)
qed

lemma ComputeStruct_child_origin:
  assumes run: "ComputeStruct init context d ivb g = Inr (n, g')" and c: "c \<in> set (children n)"
  shows "children c = []
       \<or> (\<exists>base\<in>set (nvbases_of d). nvbase_child init context (getASTRecordLayout context d) base c)
       \<or> (\<exists>p\<in>set (enumerate 0 (fields' d)).
             field_child init context (getASTRecordLayout context d) p c)
       \<or> (\<exists>Base\<in>set (vbases d). \<exists>ys.
             vbase_children init context (getASTRecordLayout context d) Base ys \<and> c \<in> set ys)"
proof -
  let ?layout = "getASTRecordLayout context d"
  from ComputeStruct_children[OF run] obtain nvs fs vss where
    ch: "children n = vptr_nodes init context d @ nvs @ vbptr_nodes init context d @ fs @ concat vss"
    and l1: "list_all2 (nvbase_child init context ?layout)
         (stable_sort (getBaseClassOffset ?layout) (nvbases_of d)) nvs"
    and l2: "list_all2 (field_child init context ?layout) (enumerate 0 (fields' d)) fs"
    and l3: "if ivb then list_all2 (vbase_children init context ?layout) (vbases d) vss
             else vss = []"
    by blast
  from c ch consider "c \<in> set (vptr_nodes init context d)" | "c \<in> set nvs"
    | "c \<in> set (vbptr_nodes init context d)" | "c \<in> set fs" | "c \<in> set (concat vss)"
    by auto
  then show ?thesis
  proof cases
    case 1
    from vptr_nodes_nature[OF this] have "c = pointer_Node init context (nature (info c)) 0" by simp
    then have "children c = []" by (metis pointer_Node_info(5))
    then show ?thesis by simp
  next
    case 2
    from list_all2_right[OF l1 2] show ?thesis by (auto simp: stable_sort_def)
  next
    case 3
    from vbptr_nodes_nature[OF this] have "children c = []" by (metis pointer_Node_info(5))
    then show ?thesis by simp
  next
    case 4
    from list_all2_right[OF l2 4] show ?thesis by blast
  next
    case 5
    then obtain ys where ys: "ys \<in> set vss" "c \<in> set ys" by auto
    then have ivb: ivb using l3 by (cases ivb) auto
    with l3 have "list_all2 (vbase_children init context ?layout) (vbases d) vss" by simp
    from list_all2_right[OF this ys(1)] ys(2) show ?thesis by blast
  qed
qed

lemma ComputeStruct_tree_all:
  assumes q0: "Q []"
    and qb: "\<And>field bits. Q (children (Bitfield_Node init context field bits))"
    and qr: "\<And>d ivb g n g'. ComputeStruct init context d ivb g = Inr (n, g') \<Longrightarrow> Q (children n)"
    and run: "ComputeStruct init context d ivb g = Inr (n, g')"
  shows "tree_all Q n"
  using run
proof (induction "size d" arbitrary: d ivb g n g' rule: less_induct)
  case less
  let ?layout = "getASTRecordLayout context d"
  have leaf: "tree_all Q x" if "children x = []" for x using that q0 by (rule tree_all_leaf)
  have "tree_all Q c" if c: "c \<in> set (children n)" for c
  proof -
    from ComputeStruct_child_origin[OF less.prems c]
    consider "children c = []"
      | base where "base \<in> set (nvbases_of d)" "nvbase_child init context ?layout base c"
      | p where "p \<in> set (enumerate 0 (fields' d))" "field_child init context ?layout p c"
      | Base ys where "Base \<in> set (vbases d)" "vbase_children init context ?layout Base ys"
          "c \<in> set ys"
      by blast
    then show ?thesis
    proof cases
      case 1
      then show ?thesis using q0 by (rule tree_all_leaf)
    next
      case 2
      from 2(2) obtain g1 bn g2 where
        r: "ComputeStruct init context base False g1 = Inr (bn, g2)"
        and e: "c = update (\<lambda>n. n\<lparr>offset := getBaseClassOffset ?layout base,
                               nature := (if Some base = getPrimaryBase ?layout
                                          then NVPrimaryBase else NVBase)\<rparr>) bn"
        unfolding nvbase_child_def by blast
      from less.hyps[OF size_nvbase[OF 2(1)] r] show ?thesis unfolding e by simp
    next
      case 3
      obtain i f where p: "p = (i, f)" by (cases p)
      from 3(1) have fm: "f \<in> set (fields' d)" unfolding p by (auto simp: in_set_enumerate_eq)
      show ?thesis
      proof (cases "getAsCXXRecordDecl f")
        case (Some fd)
        with 3(2) obtain g0 fn g1 loc where
          r: "ComputeStruct init context fd True g0 = Inr (fn, g1)"
          and e: "c = update (\<lambda>n. n\<lparr>fieldLocation := loc\<rparr>)
                       (update (\<lambda>n. n\<lparr>name := getNameAsString (field_info f),
                                      type := getAsString (field_info f),
                                      offset := toCharUnitsFromBits context
                                                  (getFieldOffset ?layout i),
                                      nature := ComplexField\<rparr>) fn)"
          unfolding field_child_def p by auto
        from less.hyps[OF size_field[OF fm Some] r] show ?thesis unfolding e by simp
      next
        case None
        show ?thesis
        proof (cases "isBitField (field_info f)")
          case True
          with 3(2) None have e: "c = Bitfield_Node init context (field_info f)
                         (getFieldOffset ?layout i)"
            unfolding field_child_def p by simp
          have ch: "children c = [update (\<lambda>n. n\<lparr>offset := int (getFieldOffset ?layout i)
                                - toBits context (toCharUnitsFromBits context (getFieldOffset ?layout i)),
                      size' := int (getBitWidthValue (field_info f))\<rparr>) (new_Node init)]"
            unfolding e by simp
          have "Q (children c)" unfolding e by (rule qb)
          moreover have "\<forall>x\<in>set (children c). tree_all Q x"
            unfolding ch by (simp add: leaf)
          ultimately show ?thesis by (subst tree_all_iff) simp
        next
          case False
          with 3(2) None have "children c = []"
            unfolding field_child_def p by auto
          then show ?thesis using q0 by (rule tree_all_leaf)
        qed
      qed
    next
      case 4
      let ?vb = "getAsCXXRecordDecl_base Base"
      from 4(2) obtain vt g1 vn g2 where
        "getVBaseOffsetsMap ?layout ?vb = Some vt"
        and r: "ComputeStruct init context ?vb False g1 = Inr (vn, g2)"
        and ys: "ys = (if hasVtorDisp vt
               then [vtorDisp_Node init (getVBaseClassOffset ?layout ?vb)]
               else [])
            @ [update (\<lambda>n. n\<lparr>offset := getVBaseClassOffset ?layout ?vb,
                              nature := (if Some ?vb = getPrimaryBase ?layout
                                         then VPrimaryBase else VBase)\<rparr>) vn]"
        unfolding vbase_children_def by blast
      from 4(3) ys consider "c = vtorDisp_Node init (getVBaseClassOffset ?layout ?vb)"
        | "c = update (\<lambda>n. n\<lparr>offset := getVBaseClassOffset ?layout ?vb,
                              nature := (if Some ?vb = getPrimaryBase ?layout
                                         then VPrimaryBase else VBase)\<rparr>) vn"
        by (auto split: if_splits)
      then show ?thesis
      proof cases
        case 1
        then have "children c = []" by simp
        then show ?thesis using q0 by (rule tree_all_leaf)
      next
        case 2
        from less.hyps[OF size_vbase[OF 4(1)] r] show ?thesis unfolding 2 by simp
      qed
    qed
  qed
  with qr[OF less.prems] show ?case by (subst tree_all_iff) simp
qed

lemma ComputeStruct_tree_sorted:
  assumes "ComputeStruct init context d ivb g = Inr (n, g')"
  shows "tree_all (\<lambda>cs. sorted (nvbase_offsets cs)) n"
proof (rule ComputeStruct_tree_all[OF _ _ _ assms])
  show "sorted (nvbase_offsets [])" by (simp add: nvbase_offsets_def)
next
  fix field bits
  show "sorted (nvbase_offsets (children (Bitfield_Node init context field bits)))"
    by (simp add: nvbase_offsets_def)
next
  fix d ivb g n g'
  assume "ComputeStruct init context d ivb g = Inr (n, g')"
  then show "sorted (nvbase_offsets (children n))" by (rule nvbases_sorted_root)
qed

lemma ComputeStruct_emission_order:
  "ComputeStruct init context d ivb g = Inr (n, g') \<Longrightarrow> emission_order init context d ivb (children n)"
  unfolding emission_order_def by (rule ComputeStruct_children)

lemma ComputeStruct_tree_order:
  assumes "ComputeStruct init context d ivb g = Inr (n, g')"
  shows "tree_all (node_order init context) n"
proof (rule ComputeStruct_tree_all[OF _ _ _ assms])
  show "node_order init context []" by (simp add: node_order_def)
next
  fix field bits
  show "node_order init context (children (Bitfield_Node init context field bits))"
    unfolding node_order_def by blast
next
  fix d ivb g n g'
  assume "ComputeStruct init context d ivb g = Inr (n, g')"
  then have "ComputeStruct init context d ivb g = Inr (n, g') \<and> children n = children n
         \<and> emission_order init context d ivb (children n)"
    by (simp add: ComputeStruct_emission_order)
  then show "node_order init context (children n)" unfolding node_order_def by blast
qed

lemma nvbase_child_type:
  assumes "nvbase_child init context layout base y"
  shows "type (info y) = getQualifiedNameAsString (decl_info base)"
proof -
  from assms obtain g bn g' where r: "ComputeStruct init context base False g = Inr (bn, g')"
    and y: "y = update (\<lambda>n. n\<lparr>offset := getBaseClassOffset layout base,
                               nature := (if Some base = getPrimaryBase layout
                                          then NVPrimaryBase else NVBase)\<rparr>) bn"
    unfolding nvbase_child_def by blast
  from ComputeStruct_run[OF r] obtain loc where
    i: "info bn = init\<lparr>typeLocation := loc,
                    type := getQualifiedNameAsString (decl_info base),
                    size' := (if False then getSize (getASTRecordLayout context base)
                              else getNonVirtualSize (getASTRecordLayout context base)),
                    align := getAlignment (getASTRecordLayout context base)\<rparr>"
    by blast
  show ?thesis by (simp add: y i)
qed

lemma Bitfield_Node_name:
  "name (info (Bitfield_Node init context field bits)) = getNameAsString field"
  by (simp add: Bitfield_Node_def Let_def)

lemma field_child_name:
  assumes "field_child init context layout p c"
  shows "name (info c) = getNameAsString (field_info (snd p))"
proof (cases "getAsCXXRecordDecl (snd p)")
  case None
  with assms show ?thesis
    unfolding field_child_def
    by (cases "isBitField (field_info (snd p))") (auto simp: Bitfield_Node_name)
next
  case (Some d)
  with assms show ?thesis unfolding field_child_def by auto
qed

lemma map_enumerate_snd: "map (\<lambda>p. h (snd p)) (enumerate 0 xs) = map h xs"
proof -
  have "map h xs = map h (map snd (enumerate 0 xs))"
    by (simp only: map_snd_enumerate)
  also have "\<dots> = map (\<lambda>p. h (snd p)) (enumerate 0 xs)"
    by (simp only: map_map comp_def)
  finally show ?thesis by (rule sym)
qed

lemma map_enumerate_index: "map (\<lambda>p. h (fst p)) (enumerate 0 xs) = map h [0..<length xs]"
proof -
  have "map h [0..<length xs] = map h (map fst (enumerate 0 xs))"
    by (simp only: map_fst_enumerate add_0)
  also have "\<dots> = map (\<lambda>p. h (fst p)) (enumerate 0 xs)"
    by (simp only: map_map comp_def)
  finally show ?thesis by (rule sym)
qed

text \<open>
  C1, as amended. The children of a built node are in the order the builder emits
  them, each one the child of the declaration at its place: the vtable or vftable
  pointer; the direct non-virtual bases in the order of the stable sort by offset, which
  is ascending by offset and leaves bases of equal offset in declaration order; the
  vbtable pointer; the fields in declaration order, also where fields share a byte
  offset; then what the virtual bases emit. This holds for every node of the tree that
  was built for a record declaration; a bitfield node has its bit position as its one
  child and every other node has none. No sort is applied to the children as a whole.
\<close>

theorem ComputeStruct_children_order:
  assumes "ComputeStruct init context d ivb g = Inr (n, g')"
  shows "emission_order init context d ivb (children n)
       \<and> tree_all (node_order init context) n
       \<and> tree_all (\<lambda>cs. sorted (nvbase_offsets cs)) n
       \<and> (\<forall>b. sorted (map (getBaseClassOffset (getASTRecordLayout context b))
                         (stable_sort (getBaseClassOffset (getASTRecordLayout context b))
                            (nvbases_of b)))
              \<and> (\<forall>k. filter (\<lambda>x. getBaseClassOffset (getASTRecordLayout context b) x = k)
                         (stable_sort (getBaseClassOffset (getASTRecordLayout context b))
                            (nvbases_of b))
                       = filter (\<lambda>x. getBaseClassOffset (getASTRecordLayout context b) x = k)
                           (nvbases_of b)))
       \<and> (\<exists>nvs fs vs.
             children n = vptr_nodes init context d @ nvs @ vbptr_nodes init context d @ fs @ vs
           \<and> map (offset \<circ> info) nvs
               = map (getBaseClassOffset (getASTRecordLayout context d))
                   (stable_sort (getBaseClassOffset (getASTRecordLayout context d)) (nvbases_of d))
           \<and> map (type \<circ> info) nvs
               = map (\<lambda>b. getQualifiedNameAsString (decl_info b))
                   (stable_sort (getBaseClassOffset (getASTRecordLayout context d)) (nvbases_of d))
           \<and> sorted (map (offset \<circ> info) nvs)
           \<and> map (offset \<circ> info) fs
               = map (\<lambda>i. toCharUnitsFromBits context
                             (getFieldOffset (getASTRecordLayout context d) i))
                   [0..<length (fields' d)]
           \<and> map (name \<circ> info) fs = map (\<lambda>f. getNameAsString (field_info f)) (fields' d)
           \<and> (\<forall>y\<in>set nvs. nature (info y) = NVBase \<or> nature (info y) = NVPrimaryBase)
           \<and> (\<forall>y\<in>set fs. nature (info y) = ComplexField \<or> nature (info y) = Bitfield
                             \<or> nature (info y) = SimpleField)
           \<and> (\<forall>y\<in>set vs. nature (info y) = VtorDisp \<or> nature (info y) = VBase
                             \<or> nature (info y) = VPrimaryBase)
           \<and> (\<not> ivb \<longrightarrow> vs = []))"
proof -
  let ?layout = "getASTRecordLayout context d"
  let ?off = "getBaseClassOffset ?layout"
  from ComputeStruct_segments[OF assms] obtain nvs fs vs where
    ch: "children n = vptr_nodes init context d @ nvs @ vbptr_nodes init context d @ fs @ vs"
    and l1: "list_all2 (nvbase_child init context ?layout) (stable_sort ?off (nvbases_of d)) nvs"
    and l2: "list_all2 (field_child init context ?layout) (enumerate 0 (fields' d)) fs"
    and a: "\<forall>y\<in>set nvs. nature (info y) = NVBase \<or> nature (info y) = NVPrimaryBase"
    and b: "\<forall>y\<in>set fs. nature (info y) = ComplexField \<or> nature (info y) = Bitfield
                      \<or> nature (info y) = SimpleField"
    and c: "\<forall>y\<in>set vs. nature (info y) = VtorDisp \<or> nature (info y) = VBase
                      \<or> nature (info y) = VPrimaryBase"
    and e: "\<not> ivb \<longrightarrow> vs = []"
    by blast
  have 1: "map (offset \<circ> info) nvs = map ?off (stable_sort ?off (nvbases_of d))"
    by (rule list_all2_map_eq[OF l1]) (simp add: nvbase_child_info(2))
  have t1: "map (type \<circ> info) nvs
            = map (\<lambda>b. getQualifiedNameAsString (decl_info b)) (stable_sort ?off (nvbases_of d))"
    by (rule list_all2_map_eq[OF l1]) (simp add: nvbase_child_type)
  have 2: "sorted (map (offset \<circ> info) nvs)" unfolding 1 by (simp add: stable_sort_def)
  have "map (offset \<circ> info) fs
        = map (\<lambda>p. toCharUnitsFromBits context (getFieldOffset ?layout (fst p)))
            (enumerate 0 (fields' d))"
    by (rule list_all2_map_eq[OF l2]) (simp add: field_child_offset)
  also have "\<dots> = map (\<lambda>i. toCharUnitsFromBits context (getFieldOffset ?layout i))
                     [0..<length (fields' d)]"
    by (rule map_enumerate_index)
  finally have 3: "map (offset \<circ> info) fs
        = map (\<lambda>i. toCharUnitsFromBits context (getFieldOffset ?layout i)) [0..<length (fields' d)]" .
  have "map (name \<circ> info) fs
        = map (\<lambda>p. getNameAsString (field_info (snd p))) (enumerate 0 (fields' d))"
    by (rule list_all2_map_eq[OF l2]) (simp add: field_child_name)
  also have "\<dots> = map (\<lambda>f. getNameAsString (field_info f)) (fields' d)"
    by (rule map_enumerate_snd)
  finally have n3: "map (name \<circ> info) fs
        = map (\<lambda>f. getNameAsString (field_info f)) (fields' d)" .
  have "children n = vptr_nodes init context d @ nvs @ vbptr_nodes init context d @ fs @ vs
           \<and> map (offset \<circ> info) nvs = map ?off (stable_sort ?off (nvbases_of d))
           \<and> map (type \<circ> info) nvs
               = map (\<lambda>b. getQualifiedNameAsString (decl_info b)) (stable_sort ?off (nvbases_of d))
           \<and> sorted (map (offset \<circ> info) nvs)
           \<and> map (offset \<circ> info) fs
               = map (\<lambda>i. toCharUnitsFromBits context (getFieldOffset ?layout i))
                   [0..<length (fields' d)]
           \<and> map (name \<circ> info) fs = map (\<lambda>f. getNameAsString (field_info f)) (fields' d)
           \<and> (\<forall>y\<in>set nvs. nature (info y) = NVBase \<or> nature (info y) = NVPrimaryBase)
           \<and> (\<forall>y\<in>set fs. nature (info y) = ComplexField \<or> nature (info y) = Bitfield
                             \<or> nature (info y) = SimpleField)
           \<and> (\<forall>y\<in>set vs. nature (info y) = VtorDisp \<or> nature (info y) = VBase
                             \<or> nature (info y) = VPrimaryBase)
           \<and> (\<not> ivb \<longrightarrow> vs = [])"
    using ch 1 t1 2 3 n3 a b c e by (intro conjI)
  then have seg: "\<exists>nvs fs vs.
             children n = vptr_nodes init context d @ nvs @ vbptr_nodes init context d @ fs @ vs
           \<and> map (offset \<circ> info) nvs = map ?off (stable_sort ?off (nvbases_of d))
           \<and> map (type \<circ> info) nvs
               = map (\<lambda>b. getQualifiedNameAsString (decl_info b)) (stable_sort ?off (nvbases_of d))
           \<and> sorted (map (offset \<circ> info) nvs)
           \<and> map (offset \<circ> info) fs
               = map (\<lambda>i. toCharUnitsFromBits context (getFieldOffset ?layout i))
                   [0..<length (fields' d)]
           \<and> map (name \<circ> info) fs = map (\<lambda>f. getNameAsString (field_info f)) (fields' d)
           \<and> (\<forall>y\<in>set nvs. nature (info y) = NVBase \<or> nature (info y) = NVPrimaryBase)
           \<and> (\<forall>y\<in>set fs. nature (info y) = ComplexField \<or> nature (info y) = Bitfield
                             \<or> nature (info y) = SimpleField)
           \<and> (\<forall>y\<in>set vs. nature (info y) = VtorDisp \<or> nature (info y) = VBase
                             \<or> nature (info y) = VPrimaryBase)
           \<and> (\<not> ivb \<longrightarrow> vs = [])"
    by (intro exI)
  have st: "\<forall>b. sorted (map (getBaseClassOffset (getASTRecordLayout context b))
                         (stable_sort (getBaseClassOffset (getASTRecordLayout context b))
                            (nvbases_of b)))
              \<and> (\<forall>k. filter (\<lambda>x. getBaseClassOffset (getASTRecordLayout context b) x = k)
                         (stable_sort (getBaseClassOffset (getASTRecordLayout context b))
                            (nvbases_of b))
                       = filter (\<lambda>x. getBaseClassOffset (getASTRecordLayout context b) x = k)
                           (nvbases_of b))"
    by (simp add: stable_sort_def sort_key_stable)
  from ComputeStruct_emission_order[OF assms] ComputeStruct_tree_order[OF assms]
    ComputeStruct_tree_sorted[OF assms] st seg
  show ?thesis by (intro conjI)
qed

lemma runU: "\<not> isl (ComputeStruct Init ctxU declU True G0)"
  by (simp add: declT1_def declT2_def declU_def ctxU_def example_defs build_defs)

lemma U_children:
  "map (type \<circ> info) (children (fst (projr (ComputeStruct Init ctxU declU True G0))))
       = [''T1'', ''T2'', ''unsigned int'', ''unsigned int'']"
  "map (name \<circ> info) (children (fst (projr (ComputeStruct Init ctxU declU True G0))))
       = ['''', '''', ''a'', ''b'']"
  "map (offset \<circ> info) (children (fst (projr (ComputeStruct Init ctxU declU True G0))))
       = [0, 0, 0, 0]"
  by (simp_all add: declT1_def declT2_def declU_def ctxU_def example_defs build_defs)

theorem ComputeStruct_children_order_witness:
  "\<not> isl (ComputeStruct Init ctxR declR True G0)
   \<and> tree_all (\<lambda>cs. sorted (nvbase_offsets cs)) (fst (projr (ComputeStruct Init ctxR declR True G0)))
   \<and> map (nature \<circ> info) (children (fst (projr (ComputeStruct Init ctxR declR True G0))))
       = [NVPrimaryBase, NVBase, Bitfield, SimpleField, ComplexField]
   \<and> map (offset \<circ> info) (children (fst (projr (ComputeStruct Init ctxR declR True G0))))
       = [0, 12, 16, 20, 24]
   \<and> map (getBaseClassOffset (getASTRecordLayout ctxR declR)) (nvbases_of declR) = [12, 0]
   \<and> \<not> isl (ComputeStruct Init ctxU declU True G0)
   \<and> emission_order Init ctxU declU True
        (children (fst (projr (ComputeStruct Init ctxU declU True G0))))
   \<and> tree_all (node_order Init ctxU) (fst (projr (ComputeStruct Init ctxU declU True G0)))
   \<and> map (getBaseClassOffset (getASTRecordLayout ctxU declU)) (nvbases_of declU) = [0, 0]
   \<and> map (\<lambda>b. getQualifiedNameAsString (decl_info b)) (nvbases_of declU) = [''T1'', ''T2'']
   \<and> map (type \<circ> info) (children (fst (projr (ComputeStruct Init ctxU declU True G0))))
       = [''T1'', ''T2'', ''unsigned int'', ''unsigned int'']
   \<and> map (name \<circ> info) (children (fst (projr (ComputeStruct Init ctxU declU True G0))))
       = ['''', '''', ''a'', ''b'']
   \<and> map (offset \<circ> info) (children (fst (projr (ComputeStruct Init ctxU declU True G0))))
       = [0, 0, 0, 0]"
proof -
  note R = ComputeStruct_children_order[OF Inr_projr[OF runR]]
  note U = ComputeStruct_children_order[OF Inr_projr[OF runU]]
  from R have a: "tree_all (\<lambda>cs. sorted (nvbase_offsets cs))
             (fst (projr (ComputeStruct Init ctxR declR True G0)))"
    by (elim conjE)
  have b: "map (nature \<circ> info) (children (fst (projr (ComputeStruct Init ctxR declR True G0))))
       = [NVPrimaryBase, NVBase, Bitfield, SimpleField, ComplexField]"
    "map (offset \<circ> info) (children (fst (projr (ComputeStruct Init ctxR declR True G0))))
       = [0, 12, 16, 20, 24]"
    by (simp_all add: example_defs build_defs)
  have c: "map (getBaseClassOffset (getASTRecordLayout ctxR declR)) (nvbases_of declR) = [12, 0]"
    by (simp add: nvbases_of_def example_defs)
  from U have d: "emission_order Init ctxU declU True
        (children (fst (projr (ComputeStruct Init ctxU declU True G0))))"
    by (rule conjunct1)
  from U have e: "tree_all (node_order Init ctxU) (fst (projr (ComputeStruct Init ctxU declU True G0)))"
    by (elim conjE)
  have f: "map (getBaseClassOffset (getASTRecordLayout ctxU declU)) (nvbases_of declU) = [0, 0]"
    "map (\<lambda>b. getQualifiedNameAsString (decl_info b)) (nvbases_of declU) = [''T1'', ''T2'']"
    by (simp_all add: nvbases_of_def declT1_def declT2_def declU_def ctxU_def example_defs)
  from runR a b c runU d e f U_children show ?thesis by (intro conjI)
qed

text \<open>
  C1 as stated fails where a later group lies before an earlier one: in
  \<open>struct B : virtual A { int x; }\<close> under the Itanium ABI the virtual primary base \<open>A\<close>
  is at offset 0 and is emitted after the field \<open>x\<close> at offset 8.
\<close>

theorem ComputeStruct_children_unsorted_counterexample:
  "map (nature \<circ> info) (children (fst (projr (ComputeStruct Init ctxB declB True G0))))
     = [SimpleField, VPrimaryBase]
   \<and> map (offset \<circ> info) (children (fst (projr (ComputeStruct Init ctxB declB True G0))))
     = [8, 0]
   \<and> \<not> sorted (map (offset \<circ> info)
                  (children (fst (projr (ComputeStruct Init ctxB declB True G0)))))"
  by (simp add: example_defs build_defs)

section \<open>A build of a well-formed declaration returns a node\<close>

lemma for_each_succeeds:
  "(\<And>x s. x \<in> set xs \<Longrightarrow> \<exists>s'. body x s = Inr s') \<Longrightarrow> \<exists>s'. for_each xs body s = Inr s'"
proof (induction xs arbitrary: s)
  case Nil
  then show ?case by simp
next
  case (Cons x xs)
  from Cons.prems[of x s] obtain s1 where b: "body x s = Inr s1" by auto
  have "\<exists>s'. for_each xs body s1 = Inr s'"
    by (rule Cons.IH) (rule Cons.prems, simp)
  with b show ?case by simp
qed

lemma collect_nvbases_succeeds:
  "(\<And>b. b \<in> set bs \<Longrightarrow> \<not> isDependentType_base b) \<Longrightarrow> \<exists>xs. collect_nvbases bs acc = Inr xs"
  by (induction bs arbitrary: acc) simp_all

lemma well_formed_iff:
  "well_formed context d \<longleftrightarrow>
     ((\<forall>base\<in>set (bases d). \<not> isDependentType_base base
          \<and> (\<not> isVirtual base \<longrightarrow> well_formed context (getAsCXXRecordDecl_base base)))
      \<and> (\<forall>Base\<in>set (vbases d). isVirtual Base
          \<and> getVBaseOffsetsMap (getASTRecordLayout context d) (getAsCXXRecordDecl_base Base) \<noteq> None
          \<and> well_formed context (getAsCXXRecordDecl_base Base))
      \<and> (\<forall>field\<in>set (fields' d).
            case getAsCXXRecordDecl field of
              None \<Rightarrow> True
            | Some fieldDeclarationCXX \<Rightarrow> well_formed context fieldDeclarationCXX))"
  by (cases d) simp

lemma ComputeStruct_succeeds:
  "well_formed context d \<Longrightarrow> \<exists>n g'. ComputeStruct init context d ivb g = Inr (n, g')"
proof (induction "size d" arbitrary: d ivb g rule: less_induct)
  case less
  obtain dinfo dbases dvbases dfields where d: "d = CXXRecordDecl dinfo dbases dvbases dfields"
    by (cases d)
  let ?layout = "getASTRecordLayout context d"
  note wf = less.prems[unfolded well_formed_iff[of "context" d]]
  have nvb_wf: "well_formed context b" if "b \<in> set (nvbases_of d)" for b
    using that wf by (auto simp: nvbases_of_def)
  from wf have nd: "\<And>b. b \<in> set dbases \<Longrightarrow> \<not> isDependentType_base b" by (simp add: d)
  have "\<exists>xs. collect_nvbases dbases [] = Inr xs"
    by (rule collect_nvbases_succeeds) (rule nd)
  then obtain nvbases where c: "collect_nvbases dbases [] = Inr nvbases" by blast
  have nvb: "nvbases = nvbases_of d"
    using collect_nvbases_eq[OF c] by (simp add: nvbases_of_def d)
  let ?nvb = "nvbase_body (ComputeStruct init context) ?layout"
  let ?fb = "field_body (ComputeStruct init context) init context ?layout"
  let ?vbb = "vbase_body (ComputeStruct init context) init ?layout"
  have s1: "\<exists>s'. ?nvb x s = Inr s'"
    if "x \<in> set (stable_sort (getBaseClassOffset ?layout) nvbases)" for x s
  proof -
    from that have m: "x \<in> set (nvbases_of d)" by (simp add: stable_sort_def nvb)
    obtain n0 g0 where s: "s = (n0, g0)" by (cases s)
    from less.hyps[OF size_nvbase[OF m] nvb_wf[OF m], of False g0]
    obtain bn g1 where "ComputeStruct init context x False g0 = Inr (bn, g1)" by blast
    then show ?thesis by (simp add: s nvbase_body_def)
  qed
  have s2: "\<exists>s'. ?fb p s = Inr s'" if "p \<in> set (enumerate 0 dfields)" for p s
  proof -
    obtain i f where p: "p = (i, f)" by (cases p)
    obtain n0 g0 where s: "s = (n0, g0)" by (cases s)
    from that have fm: "f \<in> set (fields' d)" by (auto simp: p d in_set_enumerate_eq)
    show ?thesis
    proof (cases "getAsCXXRecordDecl f")
      case None
      then show ?thesis
        by (simp add: p s field_body_def Let_def split: prod.splits)
    next
      case (Some fd)
      with wf fm have "well_formed context fd" by force
      from less.hyps[OF size_field[OF fm Some] this, of True g0]
      obtain fn g1 where "ComputeStruct init context fd True g0 = Inr (fn, g1)" by blast
      with Some show ?thesis
        by (simp add: p s field_body_def Let_def split: prod.splits)
    qed
  qed
  have s3: "\<exists>s'. ?vbb x s = Inr s'" if "x \<in> set dvbases" for x s
  proof -
    obtain n0 g0 where s: "s = (n0, g0)" by (cases s)
    from that have m: "x \<in> set (vbases d)" by (simp add: d)
    with wf have v: "isVirtual x"
      and mp: "getVBaseOffsetsMap ?layout (getAsCXXRecordDecl_base x) \<noteq> None"
      and w: "well_formed context (getAsCXXRecordDecl_base x)" by auto
    from mp obtain vt where vt: "getVBaseOffsetsMap ?layout (getAsCXXRecordDecl_base x) = Some vt"
      by auto
    from less.hyps[OF size_vbase[OF m] w, of False g0]
    obtain vn g1 where "ComputeStruct init context (getAsCXXRecordDecl_base x) False g0 = Inr (vn, g1)"
      by blast
    with v vt show ?thesis by (simp add: s vbase_body_def Let_def)
  qed
  obtain loc g1 where loc: "RetrieveLocation (typeLocation init) context (getLocation dinfo) g = (loc, g1)"
    by force
  define n0 where "n0 = update (\<lambda>n. n\<lparr>typeLocation := loc,
                              type := getQualifiedNameAsString dinfo,
                              size' := (if ivb then getSize ?layout else getNonVirtualSize ?layout),
                              align := getAlignment ?layout\<rparr>) (new_Node init)"
  define n1 where "n1 = (if isDynamicClass dinfo \<and> getPrimaryBase ?layout = None
                     \<and> \<not> isMicrosoft (getTargetInfo context)
                  then push_back n0 (pointer_Node init context VTablePtr 0)
                  else if hasOwnVFPtr ?layout
                  then push_back n0 (pointer_Node init context VFTablePtr 0)
                  else n0)"
  define n3 where "n3 = (\<lambda>n2. if hasOwnVBPtr ?layout
                             then push_back n2
                                    (pointer_Node init context VBTablePtr (getVBPtrOffset ?layout))
                             else n2)"
  have unf: "ComputeStruct init context d ivb g =
     (case collect_nvbases dbases [] of
        Inl e \<Rightarrow> Inl e
      | Inr nvbases \<Rightarrow>
          (case for_each (stable_sort (getBaseClassOffset ?layout) nvbases) ?nvb (n1, g1) of
             Inl e \<Rightarrow> Inl e
           | Inr (n2, g2) \<Rightarrow>
               (case for_each (enumerate 0 dfields) ?fb (n3 n2, g2) of
                  Inl e \<Rightarrow> Inl e
                | Inr (n4, g4) \<Rightarrow>
                    if ivb then for_each dvbases ?vbb (n4, g4) else Inr (n4, g4))))"
    unfolding d n1_def n0_def n3_def
    by (simp only: ComputeStruct.simps Let_def new_Node_simps loc prod.case)
  from for_each_succeeds[of _ ?nvb, OF s1] obtain n2 g2 where
    f1: "for_each (stable_sort (getBaseClassOffset ?layout) nvbases) ?nvb (n1, g1) = Inr (n2, g2)"
    by (metis surj_pair)
  from for_each_succeeds[of _ ?fb, OF s2] obtain n4 g4 where
    f2: "for_each (enumerate 0 dfields) ?fb (n3 n2, g2) = Inr (n4, g4)"
    by (metis surj_pair)
  from for_each_succeeds[of _ ?vbb, OF s3] obtain n5 g5 where
    f3: "for_each dvbases ?vbb (n4, g4) = Inr (n5, g5)"
    by (metis surj_pair)
  show ?case unfolding unf using c f1 f2 f3 by (cases ivb) simp_all
qed

section \<open>The location resolver: proofs\<close>

lemma static_cast_int_small: "idx < 2 ^ 31 \<Longrightarrow> static_cast_int idx = int idx"
proof -
  assume a: "idx < 2 ^ 31"
  have "sint (word_of_nat idx :: 32 word) = signed_take_bit 31 (int idx)"
    using signed_of_nat [where ?'b = 32 and ?'a = int, of idx] by simp
  also have "\<dots> = int idx"
    using a by (intro signed_take_bit_int_eq_self) simp_all
  finally show ?thesis by (simp add: static_cast_int_def)
qed

text \<open>
  C7. \<open>RetrieveLocation\<close> returns the output location and the state as they were when
  the source location is invalid or its presumed location or file is invalid.
  Otherwise it interns the presumed file and fills the output with the index it got
  (converted to \<open>int\<close> as the code does, the identity below \<open>2^31\<close>) and with the presumed
  line and column; the file table then maps the file to that index.
\<close>

theorem RetrieveLocation_result:
  "(\<not> resolvable context location \<longrightarrow>
      RetrieveLocation output context location g = (output, g))
   \<and> (resolvable context location \<longrightarrow>
      (\<exists>idx g'.
          AddFileToDictionary
            (getFileID (getPresumedLoc (getSourceManager context) location))
            (getFilename (getPresumedLoc (getSourceManager context) location)) g = (idx, g')
        \<and> RetrieveLocation output context location g =
            (\<lparr>fileIndex = static_cast_int idx,
              line = getLine (getPresumedLoc (getSourceManager context) location),
              column = getColumn (getPresumedLoc (getSourceManager context) location)\<rparr>, g')
        \<and> g_filenameLookup g'
            (getHashValue (getFileID (getPresumedLoc (getSourceManager context) location)))
            = Some idx
        \<and> (idx < 2 ^ 31 \<longrightarrow> static_cast_int idx = int idx)))"
proof (intro conjI impI)
  assume "\<not> resolvable context location"
  then show "RetrieveLocation output context location g = (output, g)"
    by (auto simp: resolvable_def RetrieveLocation_def Let_def)
next
  let ?pl = "getPresumedLoc (getSourceManager context) location"
  assume r: "resolvable context location"
  obtain idx g' where a: "AddFileToDictionary (getFileID ?pl) (getFilename ?pl) g = (idx, g')"
    by force
  have 1: "RetrieveLocation output context location g =
            (\<lparr>fileIndex = static_cast_int idx, line = getLine ?pl, column = getColumn ?pl\<rparr>, g')"
    using r a by (simp add: resolvable_def RetrieveLocation_def Let_def)
  have 2: "g_filenameLookup g' (getHashValue (getFileID ?pl)) = Some idx"
    using Add_lookup[OF a] by simp
  have 4: "idx < 2 ^ 31 \<longrightarrow> static_cast_int idx = int idx"
    using static_cast_int_small by blast
  from a 1 2 4 show "\<exists>idx g'.
          AddFileToDictionary (getFileID ?pl) (getFilename ?pl) g = (idx, g')
        \<and> RetrieveLocation output context location g =
            (\<lparr>fileIndex = static_cast_int idx, line = getLine ?pl, column = getColumn ?pl\<rparr>, g')
        \<and> g_filenameLookup g' (getHashValue (getFileID ?pl)) = Some idx
        \<and> (idx < 2 ^ 31 \<longrightarrow> static_cast_int idx = int idx)"
    by blast
qed


theorem RetrieveLocation_result_witness:
  "resolvable ctxB (at 3 4)
   \<and> \<not> resolvable ctxB (SourceLocation False 0)
   \<and> fst (RetrieveLocation (typeLocation Init) ctxB (at 3 4) G0)
       = \<lparr>fileIndex = 0, line = 3, column = 4\<rparr>
   \<and> files (g_result (snd (RetrieveLocation (typeLocation Init) ctxB (at 3 4) G0))) = [''main.cpp'']
   \<and> RetrieveLocation (typeLocation Init) ctxB (SourceLocation False 0) G0
       = (typeLocation Init, G0)"
proof -
  have a: "resolvable ctxB (at 3 4)" and b: "\<not> resolvable ctxB (SourceLocation False 0)"
    by (simp_all add: resolvable_def example_defs)
  from b RetrieveLocation_result[of ctxB "SourceLocation False 0" "typeLocation Init" G0]
  have c: "RetrieveLocation (typeLocation Init) ctxB (SourceLocation False 0) G0
       = (typeLocation Init, G0)" by blast
  have d: "fst (RetrieveLocation (typeLocation Init) ctxB (at 3 4) G0)
       = \<lparr>fileIndex = 0, line = 3, column = 4\<rparr>"
    "files (g_result (snd (RetrieveLocation (typeLocation Init) ctxB (at 3 4) G0))) = [''main.cpp'']"
    by (simp_all add: example_defs build_defs)
  from a b c d show ?thesis by (intro conjI)
qed

section \<open>The declaration locator: proofs\<close>

lemma pos_less_le: "pos_less p q \<longleftrightarrow> pos_le p q \<and> p \<noteq> q"
  by (cases p; cases q) (auto simp: pos_less_def pos_le_def)

lemma pos_le_refl: "pos_le p p"
  by (simp add: pos_le_def)

lemma pos_le_trans: "pos_le p q \<Longrightarrow> pos_le q r \<Longrightarrow> pos_le p r"
  by (cases p; cases q; cases r) (auto simp: pos_le_def)

lemma pos_less_le_trans: "pos_less p q \<Longrightarrow> pos_le q r \<Longrightarrow> pos_less p r"
  by (cases p; cases q; cases r) (auto simp: pos_le_def pos_less_def)

lemma pos_le_less_trans: "pos_le p q \<Longrightarrow> pos_less q r \<Longrightarrow> pos_less p r"
  by (cases p; cases q; cases r) (auto simp: pos_le_def pos_less_def)

lemma pos_not_less: "\<not> pos_less p q \<longleftrightarrow> pos_le q p"
  by (cases p; cases q) (auto simp: pos_le_def pos_less_def)

lemma pos_less_imp_le: "pos_less p q \<Longrightarrow> pos_le p q"
  by (simp add: pos_less_le)

lemma pos_le_zero: "pos_le p (0, 0) \<longleftrightarrow> p = (0, 0)"
  by (cases p) (auto simp: pos_le_def)

lemma TryRecord_condition:
  "((fr > sl \<or> (fr = sl \<and> fc \<ge> sc)) \<and> (fr < el \<or> (fr = el \<and> fc \<le> ec))
     \<and> (sl > bl \<or> (sl = bl \<and> sc > bc)))
   \<longleftrightarrow> (contains (fr, fc) (d, (sl, sc), (el, ec)) \<and> pos_less (bl, bc) (sl, sc))"
  by (auto simp: contains_def pos_le_def pos_less_def)

lemma TryRecord_eq:
  assumes "m_sourceManager v = sm"
  shows "TryRecord g v (Some d) r =
     (if eligible d \<and> contains (row (g_locationFilter g), col (g_locationFilter g)) (d, range_of sm r)
      then consider_candidate (d, range_of sm r) v else v)"
proof (cases "eligible d")
  case False
  then have "\<not> (\<not> isDependentType (decl_info d) \<and> getDefinition (decl_info d)
             \<and> \<not> isInvalidDecl (decl_info d) \<and> isCompleteDefinition (decl_info d))"
    by (simp add: eligible_def)
  then have "TryRecord g v (Some d) r = v"
    unfolding TryRecord_def by (simp only: option.case if_False simp_thms)
  with False show ?thesis by simp
next
  case True
  then have e: "\<not> isDependentType (decl_info d) \<and> getDefinition (decl_info d)
             \<and> \<not> isInvalidDecl (decl_info d) \<and> isCompleteDefinition (decl_info d)"
    by (simp add: eligible_def)
  let ?sl = "getLine (getPresumedLoc sm (getBegin r))"
  let ?sc = "getColumn (getPresumedLoc sm (getBegin r))"
  let ?el = "getLine (getPresumedLoc sm (getEnd r))"
  let ?ec = "getColumn (getPresumedLoc sm (getEnd r))"
  have t: "TryRecord g v (Some d) r =
     (if (row (g_locationFilter g) > ?sl
            \<or> (row (g_locationFilter g) = ?sl \<and> col (g_locationFilter g) \<ge> ?sc))
          \<and> (row (g_locationFilter g) < ?el
            \<or> (row (g_locationFilter g) = ?el \<and> col (g_locationFilter g) \<le> ?ec))
          \<and> (?sl > m_bestStartLine v \<or> (?sl = m_bestStartLine v \<and> ?sc > m_bestStartCol v))
      then v\<lparr>m_best := Some d, m_bestStartLine := ?sl, m_bestStartCol := ?sc\<rparr>
      else v)"
    unfolding TryRecord_def using e assms by (simp only: option.case if_True Let_def simp_thms)
  show ?thesis
    unfolding t TryRecord_condition[of _ _ _ _ _ _ _ _ d]
    using True
    by (simp add: range_of_def consider_candidate_def best_start_def)
qed

lemma consider_candidate_fixed [simp]:
  "m_sourceManager (consider_candidate c v) = m_sourceManager v"
  "m_mainFileId (consider_candidate c v) = m_mainFileId v"
  by (simp_all add: consider_candidate_def)

lemma Visit_eq:
  assumes "m_sourceManager v = sm" and "m_mainFileId v = getMainFileID sm"
  shows "Visit g x v =
     (case candidate sm x of
        None \<Rightarrow> v
      | Some c \<Rightarrow>
          if contains (row (g_locationFilter g), col (g_locationFilter g)) c
          then consider_candidate c v else v)"
proof (cases x)
  case (CXXRecord d)
  with assms show ?thesis
    by (simp add: VisitCXXRecordDecl_def TryRecord_eq[OF assms(1)])
next
  case (Var y)
  show ?thesis
  proof (cases "getAsCXXRecordDecl_var y")
    case None
    with Var assms show ?thesis by (simp add: VisitVarDecl_def TryRecord_def)
  next
    case (Some d)
    with Var assms show ?thesis
      by (simp add: VisitVarDecl_def TryRecord_eq[OF assms(1)])
  qed
next
  case OtherDecl
  then show ?thesis by simp
qed

lemma Visit_fixed:
  assumes "m_sourceManager v = sm" and "m_mainFileId v = getMainFileID sm"
  shows "m_sourceManager (Visit g x v) = sm \<and> m_mainFileId (Visit g x v) = getMainFileID sm"
  using assms by (simp add: Visit_eq[OF assms] split: option.splits)

lemma fold_Visit:
  assumes "m_sourceManager v = sm" and "m_mainFileId v = getMainFileID sm"
  shows "fold (Visit g) xs v =
         fold consider_candidate
           (filter (contains (row (g_locationFilter g), col (g_locationFilter g)))
              (List.map_filter (candidate sm) xs)) v"
  using assms
proof (induction xs arbitrary: v)
  case Nil
  then show ?case by (simp add: List.map_filter_simps)
next
  case (Cons x xs)
  let ?p = "(row (g_locationFilter g), col (g_locationFilter g))"
  note fx = Visit_fixed[OF Cons.prems, of g x]
  have r: "fold (Visit g) (x # xs) v = fold consider_candidate
           (filter (contains ?p) (List.map_filter (candidate sm) xs)) (Visit g x v)"
    using Cons.IH fx by simp
  show ?case
  proof (cases "candidate sm x")
    case None
    then have "Visit g x v = v" by (simp add: Visit_eq[OF Cons.prems])
    moreover have "List.map_filter (candidate sm) (x # xs) = List.map_filter (candidate sm) xs"
      using None by (simp add: List.map_filter_simps)
    ultimately show ?thesis using r by simp
  next
    case (Some c)
    then have m: "List.map_filter (candidate sm) (x # xs) = c # List.map_filter (candidate sm) xs"
      by (simp add: List.map_filter_simps)
    show ?thesis
    proof (cases "contains ?p c")
      case True
      with Some have "Visit g x v = consider_candidate c v" by (simp add: Visit_eq[OF Cons.prems])
      with r m True show ?thesis by simp
    next
      case False
      with Some have "Visit g x v = v" by (simp add: Visit_eq[OF Cons.prems])
      with r m False show ?thesis by simp
    qed
  qed
qed

lemma fold_TraverseDecl:
  "fold (TraverseDecl g) Decls v = fold (Visit g) (concat Decls) v"
  by (induction Decls arbitrary: v) (simp_all add: TraverseDecl_def)

lemma locate_eq:
  "locate g sm Decls =
     m_best (fold consider_candidate (containing g sm Decls) (new_FindStructAtLocationVisitor sm))"
proof -
  have "fold (Visit g) (concat Decls) (new_FindStructAtLocationVisitor sm) =
        fold consider_candidate (containing g sm Decls) (new_FindStructAtLocationVisitor sm)"
    unfolding containing_def
    by (rule fold_Visit) (simp_all add: new_FindStructAtLocationVisitor_def)
  then show ?thesis
    by (simp add: locate_def GetBest_def fold_TraverseDecl)
qed

lemma pos_zero_le: "pos_le (0, 0) p"
  by (cases p) (auto simp: pos_le_def word_gt_0)

text \<open>The state of the visitor after a sequence of containing candidates.\<close>

lemma fold_consider_candidate:
  fixes cs :: "(CXXRecordDecl \<times> position \<times> position) list" and sm :: SourceManager
  defines "w \<equiv> (\<lambda>cs. fold consider_candidate cs (new_FindStructAtLocationVisitor sm))"
  shows "(\<forall>c\<in>set cs. pos_le (fst (snd c)) (best_start (w cs)))
       \<and> (case m_best (w cs) of
            None \<Rightarrow> best_start (w cs) = (0, 0)
          | Some d \<Rightarrow>
              (\<exists>i<length cs. fst (cs ! i) = d \<and> fst (snd (cs ! i)) = best_start (w cs)
                 \<and> pos_less (0, 0) (best_start (w cs))
                 \<and> (\<forall>j<i. pos_less (fst (snd (cs ! j))) (best_start (w cs)))))"
proof (induction cs rule: rev_induct)
  case Nil
  then show ?case by (simp add: w_def new_FindStructAtLocationVisitor_def best_start_def)
next
  case (snoc c cs)
  define v where "v = w cs"
  have le: "\<forall>c\<in>set cs. pos_le (fst (snd c)) (best_start v)"
    unfolding v_def using snoc.IH by (rule conjunct1)
  have st: "case m_best v of
            None \<Rightarrow> best_start v = (0, 0)
          | Some d \<Rightarrow>
              (\<exists>i<length cs. fst (cs ! i) = d \<and> fst (snd (cs ! i)) = best_start v
                 \<and> pos_less (0, 0) (best_start v)
                 \<and> (\<forall>j<i. pos_less (fst (snd (cs ! j))) (best_start v)))"
    unfolding v_def using snoc.IH by (rule conjunct2)
  have f: "w (cs @ [c]) = consider_candidate c v" by (simp add: v_def w_def)
  show ?case
  proof (cases "pos_less (best_start v) (fst (snd c))")
    case True
    let ?v' = "consider_candidate c v"
    have b: "best_start ?v' = fst (snd c)" "m_best ?v' = Some (fst c)"
      using True by (simp_all add: consider_candidate_def best_start_def)
    have 1: "\<forall>x\<in>set (cs @ [c]). pos_le (fst (snd x)) (best_start ?v')"
    proof
      fix x assume "x \<in> set (cs @ [c])"
      then consider "x \<in> set cs" | "x = c" by auto
      then show "pos_le (fst (snd x)) (best_start ?v')"
      proof cases
        case 1
        with le have "pos_le (fst (snd x)) (best_start v)" by simp
        then show ?thesis unfolding b using pos_less_imp_le[OF True] by (rule pos_le_trans)
      next
        case 2
        then show ?thesis unfolding b by (simp add: pos_le_refl)
      qed
    qed
    have 2: "pos_less (0, 0) (fst (snd c))"
      using pos_zero_le[of "best_start v"] True by (rule pos_le_less_trans)
    have 3: "\<forall>j<length cs. pos_less (fst (snd ((cs @ [c]) ! j))) (fst (snd c))"
    proof (intro allI impI)
      fix j assume j: "j < length cs"
      with le have "pos_le (fst (snd (cs ! j))) (best_start v)" by simp
      then have "pos_less (fst (snd (cs ! j))) (fst (snd c))" using True by (rule pos_le_less_trans)
      with j show "pos_less (fst (snd ((cs @ [c]) ! j))) (fst (snd c))" by (simp add: nth_append)
    qed
    have "\<exists>i<length (cs @ [c]). fst ((cs @ [c]) ! i) = fst c
            \<and> fst (snd ((cs @ [c]) ! i)) = fst (snd c)
            \<and> pos_less (0, 0) (fst (snd c))
            \<and> (\<forall>j<i. pos_less (fst (snd ((cs @ [c]) ! j))) (fst (snd c)))"
      using 2 3 by (intro exI[of _ "length cs"]) simp
    with 1 b show ?thesis unfolding f by simp
  next
    case False
    then have e: "consider_candidate c v = v" by (simp add: consider_candidate_def)
    from False have "pos_le (fst (snd c)) (best_start v)" by (simp add: pos_not_less)
    with le have 1: "\<forall>x\<in>set (cs @ [c]). pos_le (fst (snd x)) (best_start v)" by simp
    have 2: "case m_best v of
            None \<Rightarrow> best_start v = (0, 0)
          | Some d \<Rightarrow>
              (\<exists>i<length (cs @ [c]). fst ((cs @ [c]) ! i) = d
                 \<and> fst (snd ((cs @ [c]) ! i)) = best_start v
                 \<and> pos_less (0, 0) (best_start v)
                 \<and> (\<forall>j<i. pos_less (fst (snd ((cs @ [c]) ! j))) (best_start v)))"
    proof (cases "m_best v")
      case None
      with st show ?thesis by simp
    next
      case (Some d)
      with st obtain i where i: "i < length cs" "fst (cs ! i) = d" "fst (snd (cs ! i)) = best_start v"
        "pos_less (0, 0) (best_start v)" "\<forall>j<i. pos_less (fst (snd (cs ! j))) (best_start v)"
        by auto
      then have "i < length (cs @ [c]) \<and> fst ((cs @ [c]) ! i) = d
                 \<and> fst (snd ((cs @ [c]) ! i)) = best_start v
                 \<and> pos_less (0, 0) (best_start v)
                 \<and> (\<forall>j<i. pos_less (fst (snd ((cs @ [c]) ! j))) (best_start v))"
        by (auto simp: nth_append)
      with Some show ?thesis by auto
    qed
    from 1 2 show ?thesis unfolding f e by simp
  qed
qed

lemmas locate_defs =
  locate_def GetBest_def TraverseDecl_def VisitCXXRecordDecl_def VisitVarDecl_def TryRecord_def
  new_FindStructAtLocationVisitor_def containing_def contains_def pos_le_def pos_less_def
  eligible_def range_of_def List.map_filter_simps Let_def
  declInner_def declOuter_def varZ_def unitOuter_def filter_at_def

lemma map_filter_member:
  "c \<in> set (List.map_filter f xs) \<longleftrightarrow> (\<exists>x\<in>set xs. f x = Some c)"
  by (induction xs) (auto simp: List.map_filter_simps split: option.splits)

lemma containing_member:
  assumes "c \<in> set (containing g sm Decls)"
  shows "eligible (fst c)
       \<and> pos_le (fst (snd c)) (row (g_locationFilter g), col (g_locationFilter g))
       \<and> pos_le (row (g_locationFilter g), col (g_locationFilter g)) (snd (snd c))
       \<and> (\<exists>x\<in>set (concat Decls). candidate sm x = Some c)"
proof -
  from assms have c: "contains (row (g_locationFilter g), col (g_locationFilter g)) c"
    and m: "c \<in> set (List.map_filter (candidate sm) (concat Decls))"
    by (simp_all add: containing_def)
  from m obtain x where x: "x \<in> set (concat Decls)" "candidate sm x = Some c"
    unfolding map_filter_member by blast
  have "eligible (fst c)"
  proof (cases x)
    case (CXXRecord d)
    with x(2) show ?thesis by (auto split: if_splits)
  next
    case (Var y)
    with x(2) show ?thesis by (auto split: if_splits option.splits)
  next
    case OtherDecl
    with x(2) show ?thesis by simp
  qed
  with c x show ?thesis by (auto simp: contains_def)
qed

lemma locate_result:
  "case locate g sm Decls of
        None \<Rightarrow> \<forall>c\<in>set (containing g sm Decls). fst (snd c) = (0, 0)
      | Some d \<Rightarrow>
          (\<exists>i<length (containing g sm Decls).
              fst (containing g sm Decls ! i) = d
            \<and> pos_less (0, 0) (fst (snd (containing g sm Decls ! i)))
            \<and> (\<forall>j<length (containing g sm Decls).
                  pos_le (fst (snd (containing g sm Decls ! j)))
                         (fst (snd (containing g sm Decls ! i))))
            \<and> (\<forall>j<i. pos_less (fst (snd (containing g sm Decls ! j)))
                              (fst (snd (containing g sm Decls ! i)))))"
proof -
  let ?cs = "containing g sm Decls"
  let ?v = "fold consider_candidate ?cs (new_FindStructAtLocationVisitor sm)"
  note F = fold_consider_candidate[of ?cs sm]
  have le: "\<forall>c\<in>set ?cs. pos_le (fst (snd c)) (best_start ?v)" using F by (rule conjunct1)
  have st: "case m_best ?v of
            None \<Rightarrow> best_start ?v = (0, 0)
          | Some d \<Rightarrow>
              (\<exists>i<length ?cs. fst (?cs ! i) = d \<and> fst (snd (?cs ! i)) = best_start ?v
                 \<and> pos_less (0, 0) (best_start ?v)
                 \<and> (\<forall>j<i. pos_less (fst (snd (?cs ! j))) (best_start ?v)))"
    using F by (rule conjunct2)
  show ?thesis
  proof (cases "m_best ?v")
    case None
    with st have "best_start ?v = (0, 0)" by simp
    with le have "\<forall>c\<in>set ?cs. fst (snd c) = (0, 0)" by (simp add: pos_le_zero)
    with None show ?thesis by (simp add: locate_eq)
  next
    case (Some d)
    with st obtain i where i: "i < length ?cs" "fst (?cs ! i) = d"
      "fst (snd (?cs ! i)) = best_start ?v" "pos_less (0, 0) (best_start ?v)"
      "\<forall>j<i. pos_less (fst (snd (?cs ! j))) (best_start ?v)"
      by auto
    have "\<forall>j<length ?cs. pos_le (fst (snd (?cs ! j))) (best_start ?v)" using le by simp
    with i have "i < length ?cs \<and> fst (?cs ! i) = d
            \<and> pos_less (0, 0) (fst (snd (?cs ! i)))
            \<and> (\<forall>j<length ?cs. pos_le (fst (snd (?cs ! j))) (fst (snd (?cs ! i))))
            \<and> (\<forall>j<i. pos_less (fst (snd (?cs ! j))) (fst (snd (?cs ! i))))"
      by simp
    then show ?thesis unfolding locate_eq Some by (simp only: option.case) blast
  qed
qed

lemma locate_nothing: "containing g sm Decls = [] \<Longrightarrow> locate g sm Decls = None"
  by (simp add: locate_eq new_FindStructAtLocationVisitor_def)

lemma locate_something:
  assumes col: "\<forall>c\<in>set (containing g sm Decls). snd (fst (snd c)) \<noteq> 0"
    and none: "locate g sm Decls = None"
  shows "containing g sm Decls = []"
proof (rule ccontr)
  assume "containing g sm Decls \<noteq> []"
  then have c: "hd (containing g sm Decls) \<in> set (containing g sm Decls)" by (rule hd_in_set)
  from locate_result[of g sm Decls] none
  have "\<forall>c\<in>set (containing g sm Decls). fst (snd c) = (0, 0)" by simp
  with c have "snd (fst (snd (hd (containing g sm Decls)))) = 0" by simp
  with col c show False by simp
qed

text \<open>
  C2, as amended. Every candidate the locator weighs comes from a visited declaration:
  a record declaration with its own source range, or a variable declaration, which
  stands for the record of its type with the range of the variable declaration. The
  candidates kept are eligible and their range contains the filter position, both ends
  inclusive, under the lexicographic order on (line, column). When the locator returns
  a declaration, it is the first-found one among the containing candidates of latest
  start position. It returns nothing when no candidate contains the filter position,
  and only then, the start columns being counted from 1 as clang counts them: the
  visitor starts with the best start position (0, 0) and replaces its best match only
  by a strictly later start.
\<close>

theorem locate_best_match:
  "(\<forall>c\<in>set (containing g sm Decls).
        eligible (fst c)
      \<and> pos_le (fst (snd c)) (row (g_locationFilter g), col (g_locationFilter g))
      \<and> pos_le (row (g_locationFilter g), col (g_locationFilter g)) (snd (snd c))
      \<and> (\<exists>x\<in>set (concat Decls). candidate sm x = Some c))
   \<and> (case locate g sm Decls of
        None \<Rightarrow> \<forall>c\<in>set (containing g sm Decls). fst (snd c) = (0, 0)
      | Some d \<Rightarrow>
          (\<exists>i<length (containing g sm Decls).
              fst (containing g sm Decls ! i) = d
            \<and> pos_less (0, 0) (fst (snd (containing g sm Decls ! i)))
            \<and> (\<forall>j<length (containing g sm Decls).
                  pos_le (fst (snd (containing g sm Decls ! j)))
                         (fst (snd (containing g sm Decls ! i))))
            \<and> (\<forall>j<i. pos_less (fst (snd (containing g sm Decls ! j)))
                              (fst (snd (containing g sm Decls ! i))))))
   \<and> (containing g sm Decls = [] \<longrightarrow> locate g sm Decls = None)
   \<and> ((\<forall>c\<in>set (containing g sm Decls). snd (fst (snd c)) \<noteq> 0) \<longrightarrow>
        (locate g sm Decls = None \<longleftrightarrow> containing g sm Decls = []))"
proof (intro conjI)
  show "\<forall>c\<in>set (containing g sm Decls).
        eligible (fst c)
      \<and> pos_le (fst (snd c)) (row (g_locationFilter g), col (g_locationFilter g))
      \<and> pos_le (row (g_locationFilter g), col (g_locationFilter g)) (snd (snd c))
      \<and> (\<exists>x\<in>set (concat Decls). candidate sm x = Some c)"
    using containing_member by blast
next
  show "case locate g sm Decls of
        None \<Rightarrow> \<forall>c\<in>set (containing g sm Decls). fst (snd c) = (0, 0)
      | Some d \<Rightarrow>
          (\<exists>i<length (containing g sm Decls).
              fst (containing g sm Decls ! i) = d
            \<and> pos_less (0, 0) (fst (snd (containing g sm Decls ! i)))
            \<and> (\<forall>j<length (containing g sm Decls).
                  pos_le (fst (snd (containing g sm Decls ! j)))
                         (fst (snd (containing g sm Decls ! i))))
            \<and> (\<forall>j<i. pos_less (fst (snd (containing g sm Decls ! j)))
                              (fst (snd (containing g sm Decls ! i)))))"
    by (rule locate_result)
next
  show "containing g sm Decls = [] \<longrightarrow> locate g sm Decls = None"
    using locate_nothing by blast
next
  show "(\<forall>c\<in>set (containing g sm Decls). snd (fst (snd c)) \<noteq> 0) \<longrightarrow>
        (locate g sm Decls = None \<longleftrightarrow> containing g sm Decls = [])"
    using locate_nothing locate_something by blast
qed

lemma locate_unitOuter: "locate (filter_at 3 10) SM unitOuter = Some declInner"
  by (simp add: locate_defs example_defs)

lemma containing_unitOuter_inner:
  "containing (filter_at 3 10) SM unitOuter
     = [(declOuter, (1, 1), (5, 2)), (declInner, (2, 1), (4, 2))]"
  by (simp add: locate_defs example_defs)

lemma containing_unitOuter_var:
  "containing (filter_at 7 3) SM unitOuter = [(declOuter, (7, 1), (7, 7))]"
  by (simp add: locate_defs example_defs)

lemma locate_unitOuter_var: "locate (filter_at 7 3) SM unitOuter = Some declOuter"
  by (simp add: locate_defs example_defs)

theorem locate_best_match_witness:
  "locate (filter_at 3 10) SM unitOuter = Some declInner
   \<and> containing (filter_at 3 10) SM unitOuter
       = [(declOuter, (1, 1), (5, 2)), (declInner, (2, 1), (4, 2))]
   \<and> map (\<lambda>c. snd (fst (snd c))) (containing (filter_at 3 10) SM unitOuter) = [1, 1]
   \<and> locate (filter_at 3 10) SM unitOuter \<noteq> None
   \<and> (\<exists>i<length (containing (filter_at 3 10) SM unitOuter).
              fst (containing (filter_at 3 10) SM unitOuter ! i) = declInner
            \<and> pos_less (0, 0) (fst (snd (containing (filter_at 3 10) SM unitOuter ! i)))
            \<and> (\<forall>j<length (containing (filter_at 3 10) SM unitOuter).
                  pos_le (fst (snd (containing (filter_at 3 10) SM unitOuter ! j)))
                         (fst (snd (containing (filter_at 3 10) SM unitOuter ! i))))
            \<and> (\<forall>j<i. pos_less (fst (snd (containing (filter_at 3 10) SM unitOuter ! j)))
                              (fst (snd (containing (filter_at 3 10) SM unitOuter ! i)))))
   \<and> locate (filter_at 7 3) SM unitOuter = Some declOuter
   \<and> containing (filter_at 7 3) SM unitOuter = [(declOuter, (7, 1), (7, 7))]
   \<and> (\<exists>x\<in>set (concat unitOuter). candidate SM x = Some (declOuter, (7, 1), (7, 7)))"
proof -
  note T = locate_best_match[of "filter_at 3 10" SM unitOuter]
  note V = locate_best_match[of "filter_at 7 3" SM unitOuter]
  have h: "\<forall>c\<in>set (containing (filter_at 3 10) SM unitOuter). snd (fst (snd c)) \<noteq> 0"
    unfolding containing_unitOuter_inner by simp
  from T have "(\<forall>c\<in>set (containing (filter_at 3 10) SM unitOuter). snd (fst (snd c)) \<noteq> 0) \<longrightarrow>
        (locate (filter_at 3 10) SM unitOuter = None
           \<longleftrightarrow> containing (filter_at 3 10) SM unitOuter = [])"
    by (elim conjE)
  with h have "locate (filter_at 3 10) SM unitOuter = None
           \<longleftrightarrow> containing (filter_at 3 10) SM unitOuter = []"
    by (rule rev_mp)
  then have a: "locate (filter_at 3 10) SM unitOuter \<noteq> None"
    unfolding containing_unitOuter_inner by simp
  have h': "map (\<lambda>c. snd (fst (snd c))) (containing (filter_at 3 10) SM unitOuter) = [1, 1]"
    unfolding containing_unitOuter_inner by simp
  from T have "case locate (filter_at 3 10) SM unitOuter of
        None \<Rightarrow> \<forall>c\<in>set (containing (filter_at 3 10) SM unitOuter). fst (snd c) = (0, 0)
      | Some d \<Rightarrow>
          (\<exists>i<length (containing (filter_at 3 10) SM unitOuter).
              fst (containing (filter_at 3 10) SM unitOuter ! i) = d
            \<and> pos_less (0, 0) (fst (snd (containing (filter_at 3 10) SM unitOuter ! i)))
            \<and> (\<forall>j<length (containing (filter_at 3 10) SM unitOuter).
                  pos_le (fst (snd (containing (filter_at 3 10) SM unitOuter ! j)))
                         (fst (snd (containing (filter_at 3 10) SM unitOuter ! i))))
            \<and> (\<forall>j<i. pos_less (fst (snd (containing (filter_at 3 10) SM unitOuter ! j)))
                              (fst (snd (containing (filter_at 3 10) SM unitOuter ! i)))))"
    by (elim conjE)
  then have b: "\<exists>i<length (containing (filter_at 3 10) SM unitOuter).
              fst (containing (filter_at 3 10) SM unitOuter ! i) = declInner
            \<and> pos_less (0, 0) (fst (snd (containing (filter_at 3 10) SM unitOuter ! i)))
            \<and> (\<forall>j<length (containing (filter_at 3 10) SM unitOuter).
                  pos_le (fst (snd (containing (filter_at 3 10) SM unitOuter ! j)))
                         (fst (snd (containing (filter_at 3 10) SM unitOuter ! i))))
            \<and> (\<forall>j<i. pos_less (fst (snd (containing (filter_at 3 10) SM unitOuter ! j)))
                              (fst (snd (containing (filter_at 3 10) SM unitOuter ! i))))"
    unfolding locate_unitOuter by (simp only: option.case)
  from V have "\<forall>c\<in>set (containing (filter_at 7 3) SM unitOuter).
        eligible (fst c)
      \<and> pos_le (fst (snd c)) (row (g_locationFilter (filter_at 7 3)), col (g_locationFilter (filter_at 7 3)))
      \<and> pos_le (row (g_locationFilter (filter_at 7 3)), col (g_locationFilter (filter_at 7 3))) (snd (snd c))
      \<and> (\<exists>x\<in>set (concat unitOuter). candidate SM x = Some c)"
    by (rule conjunct1)
  then have c: "\<exists>x\<in>set (concat unitOuter). candidate SM x = Some (declOuter, (7, 1), (7, 7))"
    unfolding containing_unitOuter_var by simp
  from locate_unitOuter containing_unitOuter_inner h' a b locate_unitOuter_var
    containing_unitOuter_var c
  show ?thesis by (intro conjI)
qed

text \<open>
  C2 as stated fails for a declaration found through a variable: with the filter
  position in \<open>Outer z;\<close> on line 7 the locator returns \<open>Outer\<close>, whose own source range,
  lines 1 to 5, does not contain the filter position.
\<close>

theorem locate_variable_range_counterexample:
  "locate (filter_at 7 3) SM unitOuter = Some declOuter
   \<and> eligible declOuter
   \<and> range_of SM (getSourceRange (decl_info declOuter)) = ((1, 1), (5, 2))
   \<and> \<not> contains (7, 3) (declOuter, range_of SM (getSourceRange (decl_info declOuter)))"
  by (simp add: locate_defs example_defs)

end
